theory Spec2Isabelle
  imports Complex_Main "HOL-Library.Word"
begin

unbundle bit_operations_syntax

section \<open>The animation engine of the contribution calendar\<close>

text \<open>
  A shallow embedding of \<^verbatim>\<open>src/hooks/useAnimationPatterns.ts\<close>: the grid primitives, the
  seven pattern step functions, \<^verbatim>\<open>executePattern\<close>, the committing frame of \<^verbatim>\<open>animate\<close>
  and the five public operations of the hook.

  Conventions of the model.
  \<^item> A grid (\<^verbatim>\<open>number[][]\<close>) is a list of rows of integers. The hook's \<^verbatim>\<open>rows\<close>,
    \<^verbatim>\<open>cols\<close> and \<^verbatim>\<open>maxGenerations\<close> are integers.
  \<^item> A JavaScript exception is a value: every function that can throw returns
    \<open>js_error + 'a\<close>. \<open>RangeError\<close> is the invalid array length of \<^verbatim>\<open>new Array(n)\<close>,
    \<open>TypeError\<close> the access to an element of a row that does not exist
    (\<^verbatim>\<open>g[r][c]\<close> with \<^verbatim>\<open>g[r]\<close> undefined). Where JavaScript would go on with
    \<^verbatim>\<open>undefined\<close> in the place of a number (a read past the end of a row, a write that
    leaves a hole, a table lookup outside the table), the value is no longer a grid of
    integers and the model stops with \<open>Undefined\<close>.
  \<^item> \<^verbatim>\<open>Math.random()\<close> is a parameter \<open>rnd\<close>: \<open>rnd k\<close> is the value returned by the
    \<open>k\<close>-th call made during the operation. Floating-point numbers are idealised as
    reals.
  \<^item> A \<^verbatim>\<open>for\<close> loop over an index is a fold over the list of the indices it visits, in
    the order of the loop.
  \<^item> Arrays and objects are values. The grids are copied wherever the code keeps one
    (\<^verbatim>\<open>grid.map(row => [...row])\<close>), so no two of them share a row. The emitters of the
    Ripple pattern are shared between the old and the new list of emitters and written
    in place; the step that does so returns what it has left in its argument.
  \<^item> The state of the hook is the live grid, the \<^verbatim>\<open>AnimationState\<close> and the grid that
    the memoised callback \<^verbatim>\<open>startAnimation\<close> has closed over. An updater given to
    \<^verbatim>\<open>setGrid\<close> or \<^verbatim>\<open>setAnimationState\<close> is run by React on the current state. An updater
    given from within another updater is queued: it runs after the outer one has
    returned.
\<close>

subsection \<open>Errors and loops\<close>

datatype js_error = RangeError | TypeError | Undefined

definition ebind :: "'e + 'a \<Rightarrow> ('a \<Rightarrow> 'e + 'b) \<Rightarrow> 'e + 'b" where
  "ebind m f = (case m of Inl e \<Rightarrow> Inl e | Inr x \<Rightarrow> f x)"

fun foldE :: "('a \<Rightarrow> 's \<Rightarrow> 'e + 's) \<Rightarrow> 'a list \<Rightarrow> 's \<Rightarrow> 'e + 's" where
  "foldE f [] s = Inr s"
| "foldE f (x # xs) s = (case f x s of Inl e \<Rightarrow> Inl e | Inr s' \<Rightarrow> foldE f xs s')"

fun mapE :: "('a \<Rightarrow> 'e + 'b) \<Rightarrow> 'a list \<Rightarrow> 'e + 'b list" where
  "mapE f [] = Inr []"
| "mapE f (x # xs) =
     (case f x of Inl e \<Rightarrow> Inl e
      | Inr y \<Rightarrow> (case mapE f xs of Inl e \<Rightarrow> Inl e | Inr ys \<Rightarrow> Inr (y # ys)))"

subsection \<open>Grids as JavaScript arrays\<close>

type_synonym grid = "int list list"

text \<open>The largest length \<^verbatim>\<open>new Array(n)\<close> accepts, \<open>2\<^sup>3\<^sup>2 - 1\<close>.\<close>

definition max_array_length :: int where
  "max_array_length = 4294967295"

text \<open>\<^verbatim>\<open>new Array(n).fill(0)\<close>\<close>

definition new_zero_array :: "int \<Rightarrow> js_error + int list" where
  "new_zero_array n =
     (if n < 0 \<or> max_array_length < n then Inl RangeError else Inr (replicate (nat n) 0))"

text \<open>The read \<^verbatim>\<open>g[r][c]\<close>.\<close>

definition cell :: "grid \<Rightarrow> int \<Rightarrow> int \<Rightarrow> js_error + int" where
  "cell g r c =
     (if 0 \<le> r \<and> r < int (length g) then
        (if 0 \<le> c \<and> c < int (length (g ! nat r)) then Inr (g ! nat r ! nat c)
         else Inl Undefined)
      else Inl TypeError)"

text \<open>
  The write \<^verbatim>\<open>g[r][c] = v\<close>. Writing at the length of a row appends to it, as JavaScript
  does; writing further out would leave a hole.
\<close>

definition set_cell :: "grid \<Rightarrow> int \<Rightarrow> int \<Rightarrow> int \<Rightarrow> js_error + grid" where
  "set_cell g r c v =
     (if 0 \<le> r \<and> r < int (length g) then
        (if 0 \<le> c \<and> c < int (length (g ! nat r))
         then Inr (g[nat r := (g ! nat r)[nat c := v]])
         else if c = int (length (g ! nat r)) then Inr (g[nat r := g ! nat r @ [v]])
         else Inl Undefined)
      else Inl TypeError)"

text \<open>The deep copy \<^verbatim>\<open>g.map(row => [...row])\<close>.\<close>

definition copy_grid :: "grid \<Rightarrow> grid" where
  "copy_grid g = map (\<lambda>row. map (\<lambda>x. x) row) g"

text \<open>\<^verbatim>\<open>new Array(rows).fill(0).map(() => new Array(cols).fill(0))\<close>\<close>

definition createEmptyGrid :: "int \<Rightarrow> int \<Rightarrow> js_error + grid" where
  "createEmptyGrid rows cols =
     ebind (new_zero_array rows) (\<lambda>outer. mapE (\<lambda>_. new_zero_array cols) outer)"

text \<open>
  \<^verbatim>\<open>createRandomGrid\<close>: the cell in row \<open>r\<close> and column \<open>c\<close> takes the draw number
  \<open>r * cols + c\<close>.
\<close>

definition createRandomGrid :: "int \<Rightarrow> int \<Rightarrow> (nat \<Rightarrow> real) \<Rightarrow> js_error + grid" where
  "createRandomGrid rows cols rnd =
     ebind (new_zero_array rows) (\<lambda>outer.
       mapE (\<lambda>r. ebind (new_zero_array cols) (\<lambda>inner.
                Inr (map (\<lambda>c. if rnd (r * length inner + c) > 7 / 10 then 1 else 0)
                       [0..<length inner])))
            [0..<length outer])"

text \<open>
  A \<open>rows \<times> cols\<close> grid: a JavaScript array of \<open>rows\<close> arrays of \<open>cols\<close> integers.
\<close>

definition is_grid :: "int \<Rightarrow> int \<Rightarrow> grid \<Rightarrow> bool" where
  "is_grid rows cols g \<longleftrightarrow>
     0 \<le> rows \<and> rows \<le> max_array_length \<and> 0 \<le> cols \<and> cols \<le> max_array_length \<and>
     int (length g) = rows \<and> list_all (\<lambda>row. int (length row) = cols) g"

definition binary :: "grid \<Rightarrow> bool" where
  "binary g \<longleftrightarrow> list_all (list_all (\<lambda>v. v = 0 \<or> v = 1)) g"

text \<open>The cell of a grid at integer coordinates, for stating results.\<close>

definition cell_at :: "grid \<Rightarrow> int \<Rightarrow> int \<Rightarrow> int" where
  "cell_at g r c = g ! nat r ! nat c"

text \<open>The write inside the grid, as a list update.\<close>

definition upd :: "grid \<Rightarrow> int \<Rightarrow> int \<Rightarrow> int \<Rightarrow> grid" where
  "upd g r c v = g[nat r := (g ! nat r)[nat c := v]]"

subsection \<open>Pattern-local state and step results\<close>

text \<open>
  \<^verbatim>\<open>patternState\<close> is typed \<^verbatim>\<open>any\<close>; the code only builds \<^verbatim>\<open>{}\<close>, \<^verbatim>\<open>{ ripples }\<close>
  and \<^verbatim>\<open>{ time }\<close>, an object with two optional properties. A step returns
  \<^verbatim>\<open>patternState\<close> only for Ripple, Wave and Spiral.
\<close>

record ripple_emitter =
  centerRow :: int
  centerCol :: int
  radius :: real
  maxRadius :: real

record pattern_state =
  ripples :: "ripple_emitter list option"
  time :: "int option"

definition empty_state :: pattern_state where
  "empty_state = \<lparr>ripples = None, time = None\<rparr>"

record step_result =
  newGrid :: grid
  hasChanged :: bool
  nextPatternState :: "pattern_state option"

subsection \<open>Game of Life\<close>

definition directions :: "(int \<times> int) list" where
  "directions = [(-1, -1), (-1, 0), (-1, 1), (0, -1), (0, 1), (1, -1), (1, 0), (1, 1)]"

definition countNeighbors :: "int \<Rightarrow> int \<Rightarrow> grid \<Rightarrow> int \<Rightarrow> int \<Rightarrow> js_error + int" where
  "countNeighbors rows cols currentGrid row col =
     foldE (\<lambda>(dr, dc) count.
              let newRow = row + dr; newCol = col + dc in
              if newRow \<ge> 0 \<and> newRow < rows \<and> newCol \<ge> 0 \<and> newCol < cols
              then ebind (cell currentGrid newRow newCol) (\<lambda>v. Inr (count + v))
              else Inr count)
       directions 0"

text \<open>The body of the inner loop of \<^verbatim>\<open>gameOfLifeStep\<close>, on the pair of its two variables.\<close>

definition gol_cell :: "int \<Rightarrow> int \<Rightarrow> grid \<Rightarrow> int \<Rightarrow> int \<Rightarrow> grid \<times> bool \<Rightarrow> js_error + grid \<times> bool" where
  "gol_cell rows cols currentGrid row col s =
     (case s of (ng, changed) \<Rightarrow>
        ebind (countNeighbors rows cols currentGrid row col) (\<lambda>neighbors.
        ebind (cell currentGrid row col) (\<lambda>currentCell.
        ebind (set_cell ng row col
                 (if currentCell = 1 then (if neighbors = 2 \<or> neighbors = 3 then 1 else 0)
                  else (if neighbors = 3 then 1 else 0))) (\<lambda>ng'.
        ebind (cell ng' row col) (\<lambda>written.
        Inr (ng', if written \<noteq> currentCell then True else changed))))))"

definition gameOfLifeStep :: "int \<Rightarrow> int \<Rightarrow> grid \<Rightarrow> js_error + step_result" where
  "gameOfLifeStep rows cols currentGrid =
     ebind (createEmptyGrid rows cols) (\<lambda>empty.
     ebind (foldE (\<lambda>row. foldE (\<lambda>col. gol_cell rows cols currentGrid row col) [0..cols - 1])
              [0..rows - 1] (empty, False)) (\<lambda>(ng, changed).
     Inr \<lparr>newGrid = ng, hasChanged = changed, nextPatternState = None\<rparr>))"

subsection \<open>Ripple\<close>

text \<open>The two loops that draw one ring.\<close>

definition draw_ripple :: "int \<Rightarrow> int \<Rightarrow> ripple_emitter \<Rightarrow> grid \<Rightarrow> js_error + grid" where
  "draw_ripple rows cols rp ng0 =
     foldE (\<lambda>row. foldE (\<lambda>col ng.
              let distance = sqrt ((real_of_int (row - centerRow rp))\<^sup>2
                                   + (real_of_int (col - centerCol rp))\<^sup>2) in
              if \<bar>distance - radius rp\<bar> < 1 then set_cell ng row col 1 else Inr ng)
            [0..cols - 1])
       [0..rows - 1] ng0"

text \<open>
  The body of the loop over the emitters, from the last index down: the emitter at
  index \<open>i\<close> grows, and is either spliced out or drawn.

  \<^verbatim>\<open>newRipples = [...ripples]\<close> copies the array, not the emitters: the objects of
  \<^verbatim>\<open>newRipples\<close> are those of \<^verbatim>\<open>state.ripples\<close>, and \<^verbatim>\<open>ripple.radius += 0.5\<close> writes to them.
  The loop state therefore carries, next to \<^verbatim>\<open>newRipples\<close> and the new grid, the content
  \<open>old\<close> of the array \<^verbatim>\<open>state.ripples\<close>. A splice at the indices above \<open>i\<close> leaves the
  indices up to \<open>i\<close> in place, so the emitter at index \<open>i\<close> of \<^verbatim>\<open>newRipples\<close> is the one at
  index \<open>i\<close> of \<open>old\<close>, unless it is the emitter just pushed.
\<close>

definition ripple_update ::
  "int \<Rightarrow> int \<Rightarrow> int \<Rightarrow> ripple_emitter list \<times> ripple_emitter list \<times> grid
     \<Rightarrow> js_error + ripple_emitter list \<times> ripple_emitter list \<times> grid" where
  "ripple_update rows cols i s =
     (case s of (rs, old, ng) \<Rightarrow>
        let rp = (rs ! nat i)\<lparr>radius := radius (rs ! nat i) + 1 / 2\<rparr>;
            old' = (if i < int (length old) then old[nat i := rp] else old) in
        if radius rp > maxRadius rp then Inr (take (nat i) rs @ drop (nat i + 1) rs, old', ng)
        else ebind (draw_ripple rows cols rp ng) (\<lambda>ng'. Inr (rs[nat i := rp], old', ng')))"

text \<open>
  \<^verbatim>\<open>rippleStep\<close> returns its result and, as second component, the object \<^verbatim>\<open>state\<close> as the
  call leaves it.
\<close>

definition rippleStep ::
  "int \<Rightarrow> int \<Rightarrow> grid \<Rightarrow> pattern_state \<Rightarrow> (nat \<Rightarrow> real)
     \<Rightarrow> js_error + step_result \<times> pattern_state" where
  "rippleStep rows cols currentGrid state rnd =
     ebind (createEmptyGrid rows cols) (\<lambda>empty.
     let old = (case ripples state of None \<Rightarrow> [] | Some rs \<Rightarrow> rs);
         newRipples =
           (if rnd 0 < 5 / 100
            then old @ [\<lparr>centerRow = \<lfloor>rnd 1 * real_of_int rows\<rfloor>,
                         centerCol = \<lfloor>rnd 2 * real_of_int cols\<rfloor>,
                         radius = 0, maxRadius = rnd 3 * 15 + 5\<rparr>]
            else old)
     in ebind (foldE (ripple_update rows cols) (rev [0..int (length newRipples) - 1])
                 (newRipples, old, empty)) (\<lambda>(rs, old', ng).
        Inr (\<lparr>newGrid = ng, hasChanged = True,
              nextPatternState = Some \<lparr>ripples = Some rs, time = None\<rparr>\<rparr>,
             state\<lparr>ripples := (case ripples state of None \<Rightarrow> None | Some _ \<Rightarrow> Some old')\<rparr>)))"

subsection \<open>Wave\<close>

definition waveStep :: "int \<Rightarrow> int \<Rightarrow> grid \<Rightarrow> pattern_state \<Rightarrow> js_error + step_result" where
  "waveStep rows cols currentGrid state =
     ebind (createEmptyGrid rows cols) (\<lambda>empty.
     let t = (case time state of None \<Rightarrow> 0 | Some t \<Rightarrow> t) in
     ebind (foldE (\<lambda>row. foldE (\<lambda>col ng.
                     let wave1 = sin (real_of_int col * (2 / 10) + real_of_int t * (1 / 10));
                         wave2 = sin (real_of_int row * (3 / 10) + real_of_int t * (15 / 100));
                         combined = (wave1 + wave2) / 2
                     in set_cell ng row col (if combined > 3 / 10 then 1 else 0))
                   [0..cols - 1])
              [0..rows - 1] empty) (\<lambda>ng.
     Inr \<lparr>newGrid = ng, hasChanged = True,
          nextPatternState = Some \<lparr>ripples = None, time = Some (t + 1)\<rparr>\<rparr>))"

subsection \<open>Rain\<close>

text \<open>
  The copy of the grid is written in three loops: the new drops of the top row (draws
  \<open>0, \<dots>, cols - 1\<close>), the move of the drops from the last row up, and the clearing of the
  bottom row (draws \<open>cols, \<dots>, 2 * cols - 1\<close>).
\<close>

definition rainStep :: "int \<Rightarrow> int \<Rightarrow> grid \<Rightarrow> (nat \<Rightarrow> real) \<Rightarrow> js_error + step_result" where
  "rainStep rows cols currentGrid rnd =
     ebind (foldE (\<lambda>col ng. if rnd (nat col) < 5 / 100 then set_cell ng 0 col 1 else Inr ng)
              [0..cols - 1] (copy_grid currentGrid)) (\<lambda>ng1.
     ebind (foldE (\<lambda>row. foldE (\<lambda>col ng.
                     ebind (cell currentGrid (row - 1) col) (\<lambda>above.
                       if above = 1
                       then ebind (set_cell ng row col 1) (\<lambda>ng'. set_cell ng' (row - 1) col 0)
                       else Inr ng))
                   [0..cols - 1])
              (rev [1..rows - 1]) ng1) (\<lambda>ng2.
     ebind (foldE (\<lambda>col ng. if rnd (nat (cols + col)) < 3 / 10
                             then set_cell ng (rows - 1) col 0 else Inr ng)
              [0..cols - 1] ng2) (\<lambda>ng3.
     Inr \<lparr>newGrid = ng3, hasChanged = True, nextPatternState = None\<rparr>)))"

subsection \<open>Spiral\<close>

text \<open>\<^verbatim>\<open>Math.atan2(y, x)\<close>\<close>

definition atan2 :: "real \<Rightarrow> real \<Rightarrow> real" where
  "atan2 y x =
     (if 0 < x then arctan (y / x)
      else if x < 0 \<and> 0 \<le> y then arctan (y / x) + pi
      else if x < 0 \<and> y < 0 then arctan (y / x) - pi
      else if 0 < y then pi / 2
      else if y < 0 then - (pi / 2)
      else 0)"

definition spiralStep :: "int \<Rightarrow> int \<Rightarrow> grid \<Rightarrow> pattern_state \<Rightarrow> js_error + step_result" where
  "spiralStep rows cols currentGrid state =
     ebind (createEmptyGrid rows cols) (\<lambda>empty.
     let t = (case time state of None \<Rightarrow> 0 | Some t \<Rightarrow> t);
         cr = real_of_int rows / 2;
         cc = real_of_int cols / 2 in
     ebind (foldE (\<lambda>row. foldE (\<lambda>col ng.
                     let dx = real_of_int col - cc;
                         dy = real_of_int row - cr;
                         angle = atan2 dy dx;
                         distance = sqrt (dx * dx + dy * dy);
                         spiralValue = sin (angle * 3 + distance * (5 / 10) - real_of_int t * (2 / 10))
                     in set_cell ng row col (if spiralValue > 5 / 10 then 1 else 0))
                   [0..cols - 1])
              [0..rows - 1] empty) (\<lambda>ng.
     Inr \<lparr>newGrid = ng, hasChanged = True,
          nextPatternState = Some \<lparr>ripples = None, time = Some (t + 1)\<rparr>\<rparr>))"

subsection \<open>Noise\<close>

text \<open>The cell in row \<open>r\<close> and column \<open>c\<close> takes the draw number \<open>r * cols + c\<close>.\<close>

definition noiseStep :: "int \<Rightarrow> int \<Rightarrow> grid \<Rightarrow> (nat \<Rightarrow> real) \<Rightarrow> js_error + step_result" where
  "noiseStep rows cols currentGrid rnd =
     ebind (createEmptyGrid rows cols) (\<lambda>empty.
     ebind (foldE (\<lambda>row. foldE (\<lambda>col ng.
                     set_cell ng row col (if rnd (nat (row * cols + col)) > 8 / 10 then 1 else 0))
                   [0..cols - 1])
              [0..rows - 1] empty) (\<lambda>ng.
     Inr \<lparr>newGrid = ng, hasChanged = True, nextPatternState = None\<rparr>))"

subsection \<open>Rule 30\<close>

text \<open>
  \<^verbatim>\<open>(left << 2) | (center << 1) | right\<close> works on 32-bit integers and yields a signed
  one; an index outside the table reads \<^verbatim>\<open>undefined\<close>.
\<close>

definition rule30_pattern :: "int \<Rightarrow> int \<Rightarrow> int \<Rightarrow> int" where
  "rule30_pattern left center right =
     sint (push_bit 2 (word_of_int left :: 32 word) OR push_bit 1 (word_of_int center)
           OR word_of_int right)"

definition rule30_table :: "int list" where
  "rule30_table = [0, 1, 1, 1, 1, 0, 0, 0]"

definition rule30_lookup :: "int \<Rightarrow> js_error + int" where
  "rule30_lookup p =
     (if 0 \<le> p \<and> p < int (length rule30_table) then Inr (rule30_table ! nat p)
      else Inl Undefined)"

definition rule30Step :: "int \<Rightarrow> int \<Rightarrow> grid \<Rightarrow> js_error + step_result" where
  "rule30Step rows cols currentGrid =
     (let middleRow = rows div 2 in
      ebind (foldE (\<lambda>col ng.
                ebind (cell currentGrid middleRow (col - 1)) (\<lambda>left.
                ebind (cell currentGrid middleRow col) (\<lambda>center.
                ebind (cell currentGrid middleRow (col + 1)) (\<lambda>right.
                ebind (rule30_lookup (rule30_pattern left center right)) (\<lambda>v.
                set_cell ng middleRow col v)))))
              [1..cols - 2] (copy_grid currentGrid)) (\<lambda>ng1.
      ebind (foldE (\<lambda>row ng.
                if row \<noteq> middleRow
                then ebind (foldE (\<lambda>col g. ebind (cell currentGrid row (col - 1)) (\<lambda>v.
                                      set_cell g row col v))
                              (rev [1..cols - 1]) ng) (\<lambda>g.
                     set_cell g row 0 0)
                else Inr ng)
              [0..rows - 1] ng1) (\<lambda>ng2.
      Inr \<lparr>newGrid = ng2, hasChanged = True, nextPatternState = None\<rparr>)))"

subsection \<open>The dispatch\<close>

datatype AnimationPattern =
  GameOfLife | Ripple | Wave | Rain | Spiral | Noise | Rule30 | Image

text \<open>
  \<^verbatim>\<open>executePattern\<close> returns the result of the step and, as second component, the object
  \<^verbatim>\<open>state\<close> as the call leaves it: only \<^verbatim>\<open>rippleStep\<close> writes to it.
\<close>

definition executePattern ::
  "int \<Rightarrow> int \<Rightarrow> grid \<Rightarrow> AnimationPattern \<Rightarrow> pattern_state \<Rightarrow> (nat \<Rightarrow> real)
     \<Rightarrow> js_error + step_result \<times> pattern_state" where
  "executePattern rows cols currentGrid pattern state rnd =
     (case pattern of
        GameOfLife \<Rightarrow> ebind (gameOfLifeStep rows cols currentGrid) (\<lambda>res. Inr (res, state))
      | Ripple \<Rightarrow> rippleStep rows cols currentGrid state rnd
      | Wave \<Rightarrow> ebind (waveStep rows cols currentGrid state) (\<lambda>res. Inr (res, state))
      | Rain \<Rightarrow> ebind (rainStep rows cols currentGrid rnd) (\<lambda>res. Inr (res, state))
      | Spiral \<Rightarrow> ebind (spiralStep rows cols currentGrid state) (\<lambda>res. Inr (res, state))
      | Noise \<Rightarrow> ebind (noiseStep rows cols currentGrid rnd) (\<lambda>res. Inr (res, state))
      | Rule30 \<Rightarrow> ebind (rule30Step rows cols currentGrid) (\<lambda>res. Inr (res, state))
      | Image \<Rightarrow> Inr (\<lparr>newGrid = currentGrid, hasChanged = False, nextPatternState = None\<rparr>,
                      state))"

subsection \<open>The engine\<close>

text \<open>
  The hook's options after the defaults of the destructuring; \<^verbatim>\<open>animationSpeed\<close> only
  decides which frames commit a step and is not part of the model. The three optional
  callbacks are modelled by the list of the notifications sent to them.

  \<^verbatim>\<open>startAnimation\<close> is memoised on \<^verbatim>\<open>onAnimationStart\<close> alone, so the \<^verbatim>\<open>grid\<close> it reads is
  the live grid of the render that created the callback: the field \<open>startGrid\<close>. It is
  the initial grid at first, and \<open>rerender\<close> is a render that creates the callback
  anew.
\<close>

record options =
  cfg_rows :: int
  cfg_cols :: int
  cfg_maxGenerations :: int

datatype notification = Started AnimationPattern | PatternChanged AnimationPattern | Stopped

record AnimationState =
  isRunning :: bool
  currentPattern :: AnimationPattern
  generation :: int
  patternState :: pattern_state
  activeLetterIndex :: "int option"
  baselineGrid :: "grid option"

record engine =
  grid :: grid
  animationState :: AnimationState
  startGrid :: grid
  notifications :: "notification list"

definition useAnimationPatterns :: "options \<Rightarrow> js_error + engine" where
  "useAnimationPatterns cfg =
     ebind (createEmptyGrid (cfg_rows cfg) (cfg_cols cfg)) (\<lambda>g.
     Inr \<lparr>grid = g,
          animationState = \<lparr>isRunning = False, currentPattern = GameOfLife, generation = 0,
            patternState = empty_state, activeLetterIndex = None, baselineGrid = None\<rparr>,
          startGrid = g, notifications = []\<rparr>)"

definition rerender :: "engine \<Rightarrow> engine" where
  "rerender e = e\<lparr>startGrid := grid e\<rparr>"

text \<open>
  One frame of \<^verbatim>\<open>animate\<close> whose elapsed time exceeds \<^verbatim>\<open>animationSpeed\<close>: the updater of
  \<^verbatim>\<open>setGrid\<close> and the updater of \<^verbatim>\<open>setAnimationState\<close> that it hands to React. The outer
  updater ends with \<^verbatim>\<open>return returnedGrid\<close>, and \<^verbatim>\<open>returnedGrid\<close> is \<^verbatim>\<open>currentGrid\<close> at that
  moment: the inner updater, which holds the assignment \<^verbatim>\<open>returnedGrid = newGrid\<close>, has
  not run yet. So the frame leaves the live grid as it is in each of its branches, and
  the inner updater decides the \<^verbatim>\<open>AnimationState\<close> from the step on \<^verbatim>\<open>currentGrid\<close>. The
  step receives the object \<^verbatim>\<open>prevState.patternState\<close> itself, so what \<^verbatim>\<open>{...prevState}\<close>
  spreads after the call is that object as the step left it (\<open>touched\<close>).
\<close>

definition animate :: "options \<Rightarrow> (nat \<Rightarrow> real) \<Rightarrow> engine \<Rightarrow> js_error + engine" where
  "animate cfg rnd e =
     (let currentGrid = grid e; returnedGrid = currentGrid; prevState = animationState e in
      if \<not> isRunning prevState then Inr (e\<lparr>grid := returnedGrid\<rparr>)
      else
        ebind (executePattern (cfg_rows cfg) (cfg_cols cfg) currentGrid
                 (currentPattern prevState) (patternState prevState) rnd) (\<lambda>(res, touched).
        if currentPattern prevState = GameOfLife \<and> \<not> hasChanged res
        then Inr (e\<lparr>grid := returnedGrid,
                    animationState := prevState\<lparr>isRunning := False, patternState := touched\<rparr>,
                    notifications := notifications e @ [Stopped]\<rparr>)
        else if generation prevState \<ge> cfg_maxGenerations cfg
        then Inr (e\<lparr>grid := returnedGrid,
                    animationState := prevState\<lparr>isRunning := False, patternState := touched\<rparr>,
                    notifications := notifications e @ [Stopped]\<rparr>)
        else Inr (e\<lparr>grid := returnedGrid,
                    animationState := prevState\<lparr>
                      generation := generation prevState + 1,
                      patternState := (case nextPatternState res of
                                         Some p \<Rightarrow> p | None \<Rightarrow> touched)\<rparr>\<rparr>)))"

definition startAnimation :: "AnimationPattern \<Rightarrow> int \<Rightarrow> engine \<Rightarrow> engine" where
  "startAnimation pattern letterIndex e =
     e\<lparr>animationState := (animationState e)\<lparr>
          isRunning := True,
          currentPattern := pattern,
          generation := 0,
          patternState := empty_state,
          activeLetterIndex := Some letterIndex,
          baselineGrid := (case baselineGrid (animationState e) of
                             Some b \<Rightarrow> Some b
                           | None \<Rightarrow> Some (copy_grid (startGrid e)))\<rparr>,
       notifications := notifications e @ [Started pattern]\<rparr>"

definition stopAnimation :: "engine \<Rightarrow> engine" where
  "stopAnimation e =
     e\<lparr>grid := (case baselineGrid (animationState e) of
                  Some b \<Rightarrow> copy_grid b | None \<Rightarrow> grid e),
       animationState := (animationState e)\<lparr>isRunning := False, activeLetterIndex := None\<rparr>,
       notifications := notifications e @ [Stopped]\<rparr>"

definition changePattern ::
  "options \<Rightarrow> AnimationPattern \<Rightarrow> (nat \<Rightarrow> real) \<Rightarrow> engine \<Rightarrow> js_error + engine" where
  "changePattern cfg pattern rnd e =
     (let e' = e\<lparr>animationState := (animationState e)\<lparr>
                    currentPattern := pattern, generation := 0, patternState := empty_state\<rparr>,
                 notifications := notifications e @ [PatternChanged pattern]\<rparr> in
      if pattern = GameOfLife \<or> pattern = Noise
      then ebind (createRandomGrid (cfg_rows cfg) (cfg_cols cfg) rnd) (\<lambda>g. Inr (e'\<lparr>grid := g\<rparr>))
      else if pattern = Rule30
      then ebind (createEmptyGrid (cfg_rows cfg) (cfg_cols cfg)) (\<lambda>empty.
           ebind (set_cell empty (cfg_rows cfg div 2) (cfg_cols cfg div 2) 1) (\<lambda>g.
           Inr (e'\<lparr>grid := g\<rparr>)))
      else ebind (createEmptyGrid (cfg_rows cfg) (cfg_cols cfg)) (\<lambda>g. Inr (e'\<lparr>grid := g\<rparr>)))"

definition resetGrid :: "options \<Rightarrow> engine \<Rightarrow> js_error + engine" where
  "resetGrid cfg e =
     ebind (createEmptyGrid (cfg_rows cfg) (cfg_cols cfg)) (\<lambda>g.
     Inr (e\<lparr>grid := g,
            animationState := (animationState e)\<lparr>
              isRunning := False, generation := 0, patternState := empty_state,
              activeLetterIndex := None\<rparr>\<rparr>))"

definition randomizeGrid :: "options \<Rightarrow> (nat \<Rightarrow> real) \<Rightarrow> engine \<Rightarrow> js_error + engine" where
  "randomizeGrid cfg rnd e =
     ebind (createRandomGrid (cfg_rows cfg) (cfg_cols cfg) rnd) (\<lambda>g.
     Inr (e\<lparr>grid := g,
            animationState := (animationState e)\<lparr>
              isRunning := False, generation := 0, patternState := empty_state,
              activeLetterIndex := None\<rparr>\<rparr>))"

subsection \<open>Runs of the engine\<close>

datatype operation =
    Start AnimationPattern int
  | Stop
  | ChangePattern AnimationPattern "nat \<Rightarrow> real"
  | Reset
  | Randomize "nat \<Rightarrow> real"
  | Frame "nat \<Rightarrow> real"
  | Rerender

fun perform :: "options \<Rightarrow> operation \<Rightarrow> engine \<Rightarrow> js_error + engine" where
  "perform cfg (Start pattern letterIndex) e = Inr (startAnimation pattern letterIndex e)"
| "perform cfg Stop e = Inr (stopAnimation e)"
| "perform cfg (ChangePattern pattern rnd) e = changePattern cfg pattern rnd e"
| "perform cfg Reset e = resetGrid cfg e"
| "perform cfg (Randomize rnd) e = randomizeGrid cfg rnd e"
| "perform cfg (Frame rnd) e = animate cfg rnd e"
| "perform cfg Rerender e = Inr (rerender e)"

definition run :: "options \<Rightarrow> operation list \<Rightarrow> engine \<Rightarrow> js_error + engine" where
  "run cfg ops e = foldE (perform cfg) ops e"

subsection \<open>Notions used in the statements\<close>

text \<open>
  The neighbour count in the words of the specification: of the eight cells around
  \<open>(r, c)\<close>, those inside the grid that are live; a cell outside the grid does not count.
\<close>

definition neighbours :: "int \<Rightarrow> int \<Rightarrow> (int \<times> int) list" where
  "neighbours r c =
     [(r - 1, c - 1), (r - 1, c), (r - 1, c + 1), (r, c - 1), (r, c + 1),
      (r + 1, c - 1), (r + 1, c), (r + 1, c + 1)]"

definition live_neighbors :: "int \<Rightarrow> int \<Rightarrow> grid \<Rightarrow> int \<Rightarrow> int \<Rightarrow> int" where
  "live_neighbors rows cols g r c =
     int (length (filter (\<lambda>(i, j). 0 \<le> i \<and> i < rows \<and> 0 \<le> j \<and> j < cols \<and> cell_at g i j = 1)
                    (neighbours r c)))"

text \<open>
  On a grid of arbitrary integers \<^verbatim>\<open>countNeighbors\<close> adds the values of the neighbours
  inside the grid; \<open>gol_value\<close> is the value the step then writes.
\<close>

definition neighbor_sum :: "int \<Rightarrow> int \<Rightarrow> grid \<Rightarrow> int \<Rightarrow> int \<Rightarrow> int" where
  "neighbor_sum rows cols g r c =
     sum_list (map (\<lambda>(i, j). if 0 \<le> i \<and> i < rows \<and> 0 \<le> j \<and> j < cols then cell_at g i j else 0)
                 (neighbours r c))"

definition gol_value :: "int \<Rightarrow> int \<Rightarrow> grid \<Rightarrow> int \<Rightarrow> int \<Rightarrow> int" where
  "gol_value rows cols g r c =
     (if cell_at g r c = 1
      then (if neighbor_sum rows cols g r c = 2 \<or> neighbor_sum rows cols g r c = 3 then 1 else 0)
      else (if neighbor_sum rows cols g r c = 3 then 1 else 0))"

text \<open>
  The cell \<open>(i, j)\<close> after one step of Rule 30, as the specification describes it: the
  table entry in the interior of the middle row, the old cell at its two edges, and in
  every other row the old cell to the left, with 0 in column 0.
\<close>

definition rule30_value :: "grid \<Rightarrow> int \<Rightarrow> int \<Rightarrow> int" where
  "rule30_value g r c =
     rule30_table ! nat (cell_at g r (c - 1) * 4 + cell_at g r c * 2 + cell_at g r (c + 1))"

definition rule30_next :: "int \<Rightarrow> int \<Rightarrow> grid \<Rightarrow> int \<Rightarrow> int \<Rightarrow> int" where
  "rule30_next rows cols g i j =
     (if i = rows div 2
      then (if 0 < j \<and> j < cols - 1 then rule30_value g i j else cell_at g i j)
      else (if j = 0 then 0 else cell_at g i (j - 1)))"

text \<open>A \<open>rows \<times> cols\<close> grid of cells 0 and 1; a grid whose cells are given by a function.\<close>

definition sound :: "int \<Rightarrow> int \<Rightarrow> grid \<Rightarrow> bool" where
  "sound rows cols g \<longleftrightarrow> is_grid rows cols g \<and> binary g"

definition shows_cells :: "int \<Rightarrow> int \<Rightarrow> grid \<Rightarrow> (int \<Rightarrow> int \<Rightarrow> int) \<Rightarrow> bool" where
  "shows_cells rows cols g f \<longleftrightarrow>
     is_grid rows cols g \<and> (\<forall>i j. 0 \<le> i \<and> i < rows \<and> 0 \<le> j \<and> j < cols \<longrightarrow> cell_at g i j = f i j)"

text \<open>An emitter after \<^verbatim>\<open>ripple.radius += 0.5\<close>.\<close>

definition grown :: "ripple_emitter \<Rightarrow> ripple_emitter" where
  "grown rp = rp\<lparr>radius := radius rp + 1 / 2\<rparr>"

text \<open>The operations that may occur between a start and the stop that follows it.\<close>

fun keeps_running :: "operation \<Rightarrow> bool" where
  "keeps_running (Frame rnd) = True"
| "keeps_running (ChangePattern pattern rnd) = True"
| "keeps_running Rerender = True"
| "keeps_running _ = False"

text \<open>
  An engine all of whose grids (the live grid, the grid \<^verbatim>\<open>startAnimation\<close> reads and the
  baseline) have the configured dimensions and cells 0 and 1.
\<close>

definition engine_ok :: "options \<Rightarrow> engine \<Rightarrow> bool" where
  "engine_ok cfg e \<longleftrightarrow>
     sound (cfg_rows cfg) (cfg_cols cfg) (grid e) \<and>
     sound (cfg_rows cfg) (cfg_cols cfg) (startGrid e) \<and>
     (case baselineGrid (animationState e) of
        None \<Rightarrow> True | Some b \<Rightarrow> sound (cfg_rows cfg) (cfg_cols cfg) b)"

subsection \<open>The invariant of the loops of the Game of Life step\<close>

text \<open>
  The cells a double loop over rows and columns has visited when it stands at row \<open>r\<close>
  and column \<open>c\<close>.
\<close>

definition visited :: "int \<Rightarrow> int \<Rightarrow> int \<Rightarrow> int \<Rightarrow> int \<Rightarrow> bool" where
  "visited cols r c i j \<longleftrightarrow> 0 \<le> i \<and> 0 \<le> j \<and> j < cols \<and> (i < r \<or> (i = r \<and> j < c))"

definition gol_inv :: "int \<Rightarrow> int \<Rightarrow> grid \<Rightarrow> int \<Rightarrow> int \<Rightarrow> grid \<times> bool \<Rightarrow> bool" where
  "gol_inv rows cols g r c s \<longleftrightarrow>
     (case s of (ng, changed) \<Rightarrow>
        is_grid rows cols ng \<and>
        (\<forall>i j. visited cols r c i j \<longrightarrow> cell_at ng i j = gol_value rows cols g i j) \<and>
        (\<forall>i j. 0 \<le> i \<and> i < rows \<and> 0 \<le> j \<and> j < cols \<and> \<not> visited cols r c i j
               \<longrightarrow> cell_at ng i j = 0) \<and>
        (changed \<longleftrightarrow> (\<exists>i j. visited cols r c i j \<and> gol_value rows cols g i j \<noteq> cell_at g i j)))"

subsection \<open>States and options used as examples\<close>

text \<open>A \<open>1 \<times> 1\<close> engine with the default limit, and with a limit of one generation.\<close>

definition cfg_1x1 :: options where
  "cfg_1x1 = \<lparr>cfg_rows = 1, cfg_cols = 1, cfg_maxGenerations = 500\<rparr>"

definition cfg_short :: options where
  "cfg_short = \<lparr>cfg_rows = 1, cfg_cols = 1, cfg_maxGenerations = 1\<rparr>"

definition engine_1x1 :: engine where
  "engine_1x1 =
     \<lparr>grid = [[0]],
      animationState = \<lparr>isRunning = False, currentPattern = GameOfLife, generation = 0,
        patternState = empty_state, activeLetterIndex = None, baselineGrid = None\<rparr>,
      startGrid = [[0]], notifications = []\<rparr>"

text \<open>After a start of Noise and a change to Rule 30, while running.\<close>

definition engine_switched :: engine where
  "engine_switched =
     \<lparr>grid = [[1]],
      animationState = \<lparr>isRunning = True, currentPattern = Rule30, generation = 0,
        patternState = empty_state, activeLetterIndex = Some 1, baselineGrid = Some [[0]]\<rparr>,
      startGrid = [[1]], notifications = [Started Noise, PatternChanged Rule30]\<rparr>"

text \<open>After a start of Noise, a stop, and a change to Rule 30 while stopped.\<close>

definition engine_restarted :: engine where
  "engine_restarted =
     \<lparr>grid = [[1]],
      animationState = \<lparr>isRunning = False, currentPattern = Rule30, generation = 0,
        patternState = empty_state, activeLetterIndex = None, baselineGrid = Some [[0]]\<rparr>,
      startGrid = [[1]], notifications = [Started Noise, Stopped, PatternChanged Rule30]\<rparr>"

text \<open>After a start of Noise and one committed frame.\<close>

definition engine_paused :: engine where
  "engine_paused =
     \<lparr>grid = [[0]],
      animationState = \<lparr>isRunning = True, currentPattern = Noise, generation = 1,
        patternState = empty_state, activeLetterIndex = Some 1, baselineGrid = Some [[0]]\<rparr>,
      startGrid = [[0]], notifications = [Started Noise]\<rparr>"

text \<open>After a start of Ripple and one committed frame that has spawned an emitter.\<close>

definition engine_rippling :: engine where
  "engine_rippling =
     \<lparr>grid = [[0]],
      animationState = \<lparr>isRunning = True, currentPattern = Ripple, generation = 1,
        patternState =
          \<lparr>ripples = Some [\<lparr>centerRow = 0, centerCol = 0, radius = 1 / 2, maxRadius = 5\<rparr>],
           time = None\<rparr>,
        activeLetterIndex = Some 6, baselineGrid = Some [[0]]\<rparr>,
      startGrid = [[0]], notifications = [Started Ripple]\<rparr>"

text \<open>The seed of Rule 30 on a \<open>3 \<times> 5\<close> grid.\<close>

definition seed_3x5 :: grid where
  "seed_3x5 = [[0, 0, 0, 0, 0], [0, 0, 1, 0, 0], [0, 0, 0, 0, 0]]"

text \<open>Options without rows, and the engine the hook builds from them.\<close>

definition cfg_no_rows :: options where
  "cfg_no_rows = \<lparr>cfg_rows = 0, cfg_cols = 5, cfg_maxGenerations = 500\<rparr>"

definition engine_no_rows :: engine where
  "engine_no_rows =
     \<lparr>grid = [],
      animationState = \<lparr>isRunning = False, currentPattern = GameOfLife, generation = 0,
        patternState = empty_state, activeLetterIndex = None, baselineGrid = None\<rparr>,
      startGrid = [], notifications = []\<rparr>"

section \<open>Properties\<close>

lemma ebind_Inr [simp]: "ebind (Inr x) f = f x"
  by (simp add: ebind_def)

lemma ebind_Inl [simp]: "ebind (Inl e) f = Inl e"
  by (simp add: ebind_def)

subsection \<open>Loops and grids\<close>

lemma copy_grid_id [simp]: "copy_grid g = g"
  by (simp add: copy_grid_def)

lemma foldE_append: "foldE f (xs @ ys) s = ebind (foldE f xs s) (foldE f ys)"
  by (induction xs arbitrary: s) (auto split: sum.splits)

lemma foldE_inv:
  assumes "I s" and "\<And>x s. x \<in> set xs \<Longrightarrow> I s \<Longrightarrow> \<exists>s'. f x s = Inr s' \<and> I s'"
  shows "\<exists>s'. foldE f xs s = Inr s' \<and> I s'"
  using assms
proof (induction xs arbitrary: s)
  case Nil
  then show ?case by simp
next
  case (Cons x xs)
  from Cons.prems obtain s1 where s1: "f x s = Inr s1" "I s1"
    by (meson list.set_intros(1))
  have "\<exists>s'. foldE f xs s1 = Inr s' \<and> I s'"
    using Cons.IH [OF s1(2)] Cons.prems(2) by (meson list.set_intros(2))
  with s1 show ?case by simp
qed

lemma foldE_upto:
  assumes "a \<le> b + 1" and "P a s"
    and "\<And>k s. a \<le> k \<Longrightarrow> k \<le> b \<Longrightarrow> P k s \<Longrightarrow> \<exists>s'. f k s = Inr s' \<and> P (k + 1) s'"
  shows "\<exists>s'. foldE f [a..b] s = Inr s' \<and> P (b + 1) s'"
  using assms
proof (induction "nat (b + 1 - a)" arbitrary: a s)
  case 0
  then have "a = b + 1" by simp
  with 0 show ?case by simp
next
  case (Suc n)
  then have ab: "a \<le> b" by linarith
  from Suc.prems(3) [OF _ ab Suc.prems(2)] obtain s1 where s1: "f a s = Inr s1" "P (a + 1) s1"
    by auto
  have "\<exists>s'. foldE f [a + 1..b] s1 = Inr s' \<and> P (b + 1) s'"
  proof (rule Suc.hyps(1))
    show "n = nat (b + 1 - (a + 1))" using Suc.hyps(2) by linarith
    show "a + 1 \<le> b + 1" using ab by simp
    show "P (a + 1) s1" by (rule s1(2))
    show "\<And>k s. a + 1 \<le> k \<Longrightarrow> k \<le> b \<Longrightarrow> P k s \<Longrightarrow> \<exists>s'. f k s = Inr s' \<and> P (k + 1) s'"
      using Suc.prems(3) by simp
  qed
  moreover have "[a..b] = a # [a + 1..b]" using ab by (simp add: upto_rec1)
  ultimately show ?case using s1 by simp
qed

lemma foldE_rev_upto:
  assumes "a \<le> b + 1" and "P (b + 1) s"
    and "\<And>k s. a \<le> k \<Longrightarrow> k \<le> b \<Longrightarrow> P (k + 1) s \<Longrightarrow> \<exists>s'. f k s = Inr s' \<and> P k s'"
  shows "\<exists>s'. foldE f (rev [a..b]) s = Inr s' \<and> P a s'"
  using assms
proof (induction "nat (b + 1 - a)" arbitrary: b s)
  case 0
  then have "a = b + 1" by simp
  with 0 show ?case by simp
next
  case (Suc n)
  then have ab: "a \<le> b" by linarith
  from Suc.prems(3) [OF ab _ Suc.prems(2)] obtain s1 where s1: "f b s = Inr s1" "P b s1"
    by auto
  have "\<exists>s'. foldE f (rev [a..b - 1]) s1 = Inr s' \<and> P a s'"
  proof (rule Suc.hyps(1))
    show "n = nat (b - 1 + 1 - a)" using Suc.hyps(2) by linarith
    show "a \<le> b - 1 + 1" using ab by simp
    show "P (b - 1 + 1) s1" using s1(2) by simp
    show "\<And>k s. a \<le> k \<Longrightarrow> k \<le> b - 1 \<Longrightarrow> P (k + 1) s \<Longrightarrow> \<exists>s'. f k s = Inr s' \<and> P k s'"
      using Suc.prems(3) by simp
  qed
  moreover have "rev [a..b] = b # rev [a..b - 1]" using ab by (simp add: upto_rec2)
  ultimately show ?case using s1 by simp
qed

lemma mapE_const: "mapE (\<lambda>_. Inr y) xs = Inr (replicate (length xs) y)"
  by (induction xs) auto

lemma createEmptyGrid_ok:
  assumes "0 \<le> rows" "rows \<le> max_array_length" "0 \<le> cols" "cols \<le> max_array_length"
  shows "createEmptyGrid rows cols = Inr (replicate (nat rows) (replicate (nat cols) 0))"
  using assms by (simp add: createEmptyGrid_def new_zero_array_def mapE_const)

lemma is_grid_replicate:
  assumes "0 \<le> rows" "rows \<le> max_array_length" "0 \<le> cols" "cols \<le> max_array_length"
  shows "is_grid rows cols (replicate (nat rows) (replicate (nat cols) v))"
  using assms by (simp add: is_grid_def list_all_length)

lemma binary_replicate0: "binary (replicate m (replicate n 0))"
  by (simp add: binary_def list_all_length)

lemma cell_at_replicate:
  "0 \<le> r \<Longrightarrow> r < rows \<Longrightarrow> 0 \<le> c \<Longrightarrow> c < cols \<Longrightarrow>
   cell_at (replicate (nat rows) (replicate (nat cols) v)) r c = v"
  by (simp add: cell_at_def)

lemma is_grid_row:
  assumes "is_grid rows cols g" "0 \<le> r" "r < rows"
  shows "nat r < length g" and "length (g ! nat r) = nat cols"
proof -
  show r: "nat r < length g" using assms by (auto simp: is_grid_def)
  have "\<forall>n<length g. int (length (g ! n)) = cols"
    using assms(1) by (simp add: is_grid_def list_all_length)
  with r have "int (length (g ! nat r)) = cols" by blast
  then show "length (g ! nat r) = nat cols" by simp
qed

lemma cell_in_grid:
  assumes "is_grid rows cols g" "0 \<le> r" "r < rows" "0 \<le> c" "c < cols"
  shows "cell g r c = Inr (cell_at g r c)"
  using assms is_grid_row [OF assms(1-3)] by (simp add: cell_def cell_at_def is_grid_def)

lemma nth_update_if: "n < length xs \<Longrightarrow> xs[i := x] ! n = (if n = i then x else xs ! n)"
  by (auto simp: nth_list_update)

lemma set_cell_in_grid:
  assumes "is_grid rows cols g" "0 \<le> r" "r < rows" "0 \<le> c" "c < cols"
  shows "set_cell g r c v = Inr (upd g r c v)"
  using assms is_grid_row [OF assms(1-3)] by (simp add: set_cell_def upd_def is_grid_def)

lemma is_grid_upd: "is_grid rows cols g \<Longrightarrow> is_grid rows cols (upd g r c v)"
  by (auto simp: is_grid_def upd_def list_all_length nth_update_if)

lemma binary_upd: "binary g \<Longrightarrow> v = 0 \<or> v = 1 \<Longrightarrow> binary (upd g r c v)"
  by (auto simp: binary_def upd_def list_all_length nth_update_if)

lemma cell_at_upd:
  assumes "is_grid rows cols g" "0 \<le> r" "r < rows" "0 \<le> c" "c < cols"
    and "0 \<le> i" "i < rows" "0 \<le> j" "j < cols"
  shows "cell_at (upd g r c v) i j = (if i = r \<and> j = c then v else cell_at g i j)"
  using assms is_grid_row [OF assms(1-3)] is_grid_row [OF assms(1) assms(6,7)]
  by (auto simp: upd_def cell_at_def nth_update_if)

lemma binary_cell_at:
  assumes "is_grid rows cols g" "binary g" "0 \<le> r" "r < rows" "0 \<le> c" "c < cols"
  shows "cell_at g r c = 0 \<or> cell_at g r c = 1"
proof -
  have "nat r < length g" "nat c < length (g ! nat r)"
    using assms is_grid_row [OF assms(1) assms(3,4)] by simp_all
  with assms(2) show ?thesis
    unfolding binary_def cell_at_def list_all_length by blast
qed

subsection \<open>Game of Life\<close>

lemma foldE_sum:
  assumes "\<And>x acc. x \<in> set xs \<Longrightarrow> f x acc = Inr (acc + h x)"
  shows "foldE f xs acc = Inr (acc + sum_list (map h xs))"
  using assms by (induction xs arbitrary: acc) (simp_all add: add.assoc)

lemma neighbours_directions: "neighbours r c = map (\<lambda>(dr, dc). (r + dr, c + dc)) directions"
  by (simp add: neighbours_def directions_def)

lemma countNeighbors_sum:
  assumes "is_grid rows cols g"
  shows "countNeighbors rows cols g r c = Inr (neighbor_sum rows cols g r c)"
proof -
  have "foldE (\<lambda>(dr, dc) count.
              let newRow = r + dr; newCol = c + dc in
              if newRow \<ge> 0 \<and> newRow < rows \<and> newCol \<ge> 0 \<and> newCol < cols
              then ebind (cell g newRow newCol) (\<lambda>v. Inr (count + v))
              else Inr count) directions 0
      = Inr (0 + sum_list (map (\<lambda>(dr, dc). if 0 \<le> r + dr \<and> r + dr < rows \<and> 0 \<le> c + dc \<and> c + dc < cols
                 then cell_at g (r + dr) (c + dc) else 0) directions))"
    by (rule foldE_sum) (auto simp: Let_def cell_in_grid [OF assms])
  then show ?thesis
    by (simp add: countNeighbors_def neighbor_sum_def neighbours_directions comp_def case_prod_unfold
        cong: if_cong)
qed

lemma length_filter_sum: "int (length (filter P xs)) = sum_list (map (\<lambda>x. if P x then 1 else 0) xs)"
  by (induction xs) auto

lemma neighbor_sum_live:
  assumes "is_grid rows cols g" "binary g"
  shows "neighbor_sum rows cols g r c = live_neighbors rows cols g r c"
proof -
  have "(if 0 \<le> i \<and> i < rows \<and> 0 \<le> j \<and> j < cols then cell_at g i j else 0)
      = (if 0 \<le> i \<and> i < rows \<and> 0 \<le> j \<and> j < cols \<and> cell_at g i j = 1 then 1 else 0)" for i j
    using binary_cell_at [OF assms, of i j] by auto
  then show ?thesis
    by (simp add: neighbor_sum_def live_neighbors_def length_filter_sum case_prod_unfold)
qed

lemma gol_cell_ok:
  assumes "is_grid rows cols g" "is_grid rows cols ng"
    and "0 \<le> r" "r < rows" "0 \<le> c" "c < cols"
  shows "gol_cell rows cols g r c (ng, ch) =
           Inr (upd ng r c (gol_value rows cols g r c),
                ch \<or> gol_value rows cols g r c \<noteq> cell_at g r c)"
proof -
  have w: "cell (upd ng r c v) r c = Inr v" for v
    using cell_in_grid [OF is_grid_upd [OF assms(2)] assms(3-6)]
      cell_at_upd [OF assms(2) assms(3-6) assms(3-6)] by simp
  show ?thesis
    by (simp add: gol_cell_def countNeighbors_sum [OF assms(1)] cell_in_grid [OF assms(1) assms(3-6)]
        set_cell_in_grid [OF assms(2) assms(3-6)] w gol_value_def)
qed

lemma visited_next_col:
  "0 \<le> r \<Longrightarrow> 0 \<le> c \<Longrightarrow> c < cols \<Longrightarrow>
   visited cols r (c + 1) i j \<longleftrightarrow> visited cols r c i j \<or> (i = r \<and> j = c)"
  by (auto simp: visited_def)

lemma visited_next_row: "0 \<le> cols \<Longrightarrow> visited cols r cols i j \<longleftrightarrow> visited cols (r + 1) 0 i j"
  by (auto simp: visited_def)

lemma visited_range: "visited cols r c i j \<Longrightarrow> r < rows \<Longrightarrow> 0 \<le> i \<and> i < rows \<and> 0 \<le> j \<and> j < cols"
  by (auto simp: visited_def)

lemma gol_inv_step:
  assumes g: "is_grid rows cols g" and r: "0 \<le> r" "r < rows" and c: "0 \<le> c" "c < cols"
    and inv: "gol_inv rows cols g r c s"
  shows "\<exists>s'. gol_cell rows cols g r c s = Inr s' \<and> gol_inv rows cols g r (c + 1) s'"
proof -
  obtain ng ch where s: "s = (ng, ch)" by (cases s)
  from inv s have ng: "is_grid rows cols ng"
    and seen: "\<And>i j. visited cols r c i j \<Longrightarrow> cell_at ng i j = gol_value rows cols g i j"
    and rest: "\<And>i j. 0 \<le> i \<Longrightarrow> i < rows \<Longrightarrow> 0 \<le> j \<Longrightarrow> j < cols \<Longrightarrow> \<not> visited cols r c i j
               \<Longrightarrow> cell_at ng i j = 0"
    and ch: "ch \<longleftrightarrow> (\<exists>i j. visited cols r c i j \<and> gol_value rows cols g i j \<noteq> cell_at g i j)"
    by (auto simp: gol_inv_def)
  let ?v = "gol_value rows cols g r c"
  let ?ng = "upd ng r c ?v"
  have step: "gol_cell rows cols g r c s = Inr (?ng, ch \<or> ?v \<noteq> cell_at g r c)"
    unfolding s by (rule gol_cell_ok [OF g ng r c])
  have at: "cell_at ?ng i j = (if i = r \<and> j = c then ?v else cell_at ng i j)"
    if "0 \<le> i" "i < rows" "0 \<le> j" "j < cols" for i j
    by (rule cell_at_upd [OF ng r c that])
  have 1: "cell_at ?ng i j = gol_value rows cols g i j" if "visited cols r (c + 1) i j" for i j
  proof -
    from that have rng: "0 \<le> i" "i < rows" "0 \<le> j" "j < cols"
      using r by (auto simp: visited_def)
    from that consider "i = r \<and> j = c" | "visited cols r c i j" "\<not> (i = r \<and> j = c)"
      using visited_next_col [OF r(1) c] by blast
    then show ?thesis
    proof cases
      case 1
      then show ?thesis using at [OF rng] by simp
    next
      case 2
      then show ?thesis using at [OF rng] seen by simp
    qed
  qed
  have 2: "cell_at ?ng i j = 0"
    if "0 \<le> i" "i < rows" "0 \<le> j" "j < cols" "\<not> visited cols r (c + 1) i j" for i j
  proof -
    from that(5) have "\<not> visited cols r c i j" "\<not> (i = r \<and> j = c)"
      using visited_next_col [OF r(1) c] by blast+
    then show ?thesis using at [OF that(1-4)] rest [OF that(1-4)] by auto
  qed
  have 3: "(ch \<or> ?v \<noteq> cell_at g r c) \<longleftrightarrow>
        (\<exists>i j. visited cols r (c + 1) i j \<and> gol_value rows cols g i j \<noteq> cell_at g i j)"
    unfolding ch visited_next_col [OF r(1) c] by blast
  show ?thesis
    unfolding step gol_inv_def using ng 1 2 3 by (simp add: is_grid_upd)
qed

lemma gol_inv_row:
  assumes g: "is_grid rows cols g" and r: "0 \<le> r" "r < rows"
    and inv: "gol_inv rows cols g r 0 s"
  shows "\<exists>s'. foldE (\<lambda>col. gol_cell rows cols g r col) [0..cols - 1] s = Inr s'
              \<and> gol_inv rows cols g (r + 1) 0 s'"
proof -
  have cols: "0 \<le> cols" using g by (simp add: is_grid_def)
  have "\<exists>s'. foldE (\<lambda>col. gol_cell rows cols g r col) [0..cols - 1] s = Inr s'
              \<and> gol_inv rows cols g r (cols - 1 + 1) s'"
    by (rule foldE_upto [where P = "gol_inv rows cols g r"])
       (use cols inv gol_inv_step [OF g r] in auto)
  then show ?thesis
    by (simp add: gol_inv_def visited_next_row [OF cols])
qed

lemma gol_inv_all:
  assumes g: "is_grid rows cols g" and inv: "gol_inv rows cols g 0 0 s"
  shows "\<exists>s'. foldE (\<lambda>row. foldE (\<lambda>col. gol_cell rows cols g row col) [0..cols - 1])
                 [0..rows - 1] s = Inr s' \<and> gol_inv rows cols g rows 0 s'"
proof -
  have rows: "0 \<le> rows" using g by (simp add: is_grid_def)
  have "\<exists>s'. foldE (\<lambda>row. foldE (\<lambda>col. gol_cell rows cols g row col) [0..cols - 1])
                 [0..rows - 1] s = Inr s' \<and> gol_inv rows cols g (rows - 1 + 1) 0 s'"
    by (rule foldE_upto [where P = "\<lambda>r. gol_inv rows cols g r 0"])
       (use rows inv gol_inv_row [OF g] in auto)
  then show ?thesis by simp
qed


lemma visited_all: "visited cols rows 0 i j \<longleftrightarrow> 0 \<le> i \<and> i < rows \<and> 0 \<le> j \<and> j < cols"
  by (auto simp: visited_def)

lemma visited_none: "\<not> visited cols 0 0 i j"
  by (auto simp: visited_def)

lemma gameOfLifeStep_result:
  assumes g: "is_grid rows cols g"
  shows "\<exists>ng ch. gameOfLifeStep rows cols g
             = Inr \<lparr>newGrid = ng, hasChanged = ch, nextPatternState = None\<rparr>
           \<and> is_grid rows cols ng
           \<and> (\<forall>i j. 0 \<le> i \<and> i < rows \<and> 0 \<le> j \<and> j < cols
                  \<longrightarrow> cell_at ng i j = gol_value rows cols g i j)
           \<and> (ch \<longleftrightarrow> (\<exists>i j. 0 \<le> i \<and> i < rows \<and> 0 \<le> j \<and> j < cols
                          \<and> gol_value rows cols g i j \<noteq> cell_at g i j))"
proof -
  have dims: "0 \<le> rows" "rows \<le> max_array_length" "0 \<le> cols" "cols \<le> max_array_length"
    using g by (simp_all add: is_grid_def)
  let ?empty = "replicate (nat rows) (replicate (nat cols) (0::int))"
  have "gol_inv rows cols g 0 0 (?empty, False)"
    by (simp add: gol_inv_def visited_none is_grid_replicate [OF dims] cell_at_replicate)
  from gol_inv_all [OF g this] obtain ng ch
    where run: "foldE (\<lambda>row. foldE (\<lambda>col. gol_cell rows cols g row col) [0..cols - 1])
                 [0..rows - 1] (?empty, False) = Inr (ng, ch)"
      and inv: "gol_inv rows cols g rows 0 (ng, ch)"
    by auto
  have "gameOfLifeStep rows cols g = Inr \<lparr>newGrid = ng, hasChanged = ch, nextPatternState = None\<rparr>"
    by (simp add: gameOfLifeStep_def createEmptyGrid_ok [OF dims] run)
  with inv show ?thesis
    by (simp add: gol_inv_def visited_all)
qed

lemma binaryI:
  assumes "is_grid rows cols g"
    and "\<And>i j. 0 \<le> i \<Longrightarrow> i < rows \<Longrightarrow> 0 \<le> j \<Longrightarrow> j < cols \<Longrightarrow> cell_at g i j = 0 \<or> cell_at g i j = 1"
  shows "binary g"
  unfolding binary_def list_all_length
proof (intro allI impI)
  fix n m assume n: "n < length g" and m: "m < length (g ! n)"
  have "int n < rows" using assms(1) n by (simp add: is_grid_def)
  moreover have "int m < cols"
    using is_grid_row(2) [OF assms(1), of "int n"] n m assms(1) by (simp add: is_grid_def)
  ultimately have "cell_at g (int n) (int m) = 0 \<or> cell_at g (int n) (int m) = 1"
    using assms(2) [of "int n" "int m"] by simp
  then show "g ! n ! m = 0 \<or> g ! n ! m = 1" by (simp add: cell_at_def)
qed

lemma gol_value_binary: "gol_value rows cols g r c = 0 \<or> gol_value rows cols g r c = 1"
  by (simp add: gol_value_def)

text \<open>
  C9: on every \<open>rows \<times> cols\<close> grid of arbitrary integers the Game of Life step returns a
  result (it raises no exception), and the grid it returns has exactly \<open>rows\<close> rows of
  \<open>cols\<close> cells, each 0 or 1.
\<close>

theorem gameOfLifeStep_total:
  assumes "is_grid rows cols g"
  shows "\<exists>res. gameOfLifeStep rows cols g = Inr res
           \<and> is_grid rows cols (newGrid res) \<and> binary (newGrid res)"
proof -
  from gameOfLifeStep_result [OF assms] obtain ng ch
    where res: "gameOfLifeStep rows cols g
                  = Inr \<lparr>newGrid = ng, hasChanged = ch, nextPatternState = None\<rparr>"
      and ng: "is_grid rows cols ng"
      and cells: "\<forall>i j. 0 \<le> i \<and> i < rows \<and> 0 \<le> j \<and> j < cols
                    \<longrightarrow> cell_at ng i j = gol_value rows cols g i j"
    by blast
  have "binary ng"
    by (rule binaryI [OF ng]) (use cells gol_value_binary in auto)
  with res ng show ?thesis by simp
qed

theorem gameOfLifeStep_total_witness:
  "is_grid 2 3 [[5, -3, 0], [1, 7, 1]]
   \<and> (\<exists>res. gameOfLifeStep 2 3 [[5, -3, 0], [1, 7, 1]] = Inr res
         \<and> is_grid 2 3 (newGrid res) \<and> binary (newGrid res))"
proof -
  have g: "is_grid 2 3 [[5, -3, 0], [1, 7, 1]]"
    by (simp add: is_grid_def max_array_length_def)
  show ?thesis using g gameOfLifeStep_total [OF g] by simp
qed

text \<open>
  C4: on a \<open>rows \<times> cols\<close> grid of cells 0 and 1 the Game of Life step computes every cell
  from the number of its live neighbours inside the grid: a cell of value 1 becomes 1
  exactly when that number is 2 or 3, a cell of value 0 becomes 1 exactly when it is 3,
  and every cell of the result is 0 or 1; the flag \<^verbatim>\<open>hasChanged\<close> is true exactly when
  some cell of the result differs from the input.
\<close>

theorem gameOfLifeStep_rule:
  assumes "is_grid rows cols g" and "binary g"
  shows "\<exists>res. gameOfLifeStep rows cols g = Inr res
           \<and> is_grid rows cols (newGrid res)
           \<and> (\<forall>r c. 0 \<le> r \<and> r < rows \<and> 0 \<le> c \<and> c < cols \<longrightarrow>
                 (cell_at (newGrid res) r c = 0 \<or> cell_at (newGrid res) r c = 1)
               \<and> (cell_at g r c = 1 \<longrightarrow>
                    (cell_at (newGrid res) r c = 1 \<longleftrightarrow>
                       live_neighbors rows cols g r c = 2 \<or> live_neighbors rows cols g r c = 3))
               \<and> (cell_at g r c = 0 \<longrightarrow>
                    (cell_at (newGrid res) r c = 1 \<longleftrightarrow> live_neighbors rows cols g r c = 3)))
           \<and> (hasChanged res \<longleftrightarrow>
                (\<exists>r c. 0 \<le> r \<and> r < rows \<and> 0 \<le> c \<and> c < cols
                       \<and> cell_at (newGrid res) r c \<noteq> cell_at g r c))"
proof -
  from gameOfLifeStep_result [OF assms(1)] obtain ng ch
    where res: "gameOfLifeStep rows cols g
                  = Inr \<lparr>newGrid = ng, hasChanged = ch, nextPatternState = None\<rparr>"
      and ng: "is_grid rows cols ng"
      and cells: "\<And>i j. 0 \<le> i \<and> i < rows \<and> 0 \<le> j \<and> j < cols
                    \<Longrightarrow> cell_at ng i j = gol_value rows cols g i j"
      and ch: "ch \<longleftrightarrow> (\<exists>i j. 0 \<le> i \<and> i < rows \<and> 0 \<le> j \<and> j < cols
                          \<and> gol_value rows cols g i j \<noteq> cell_at g i j)"
    by blast
  have rule: "(cell_at ng r c = 0 \<or> cell_at ng r c = 1)
               \<and> (cell_at g r c = 1 \<longrightarrow>
                    (cell_at ng r c = 1 \<longleftrightarrow>
                       live_neighbors rows cols g r c = 2 \<or> live_neighbors rows cols g r c = 3))
               \<and> (cell_at g r c = 0 \<longrightarrow>
                    (cell_at ng r c = 1 \<longleftrightarrow> live_neighbors rows cols g r c = 3))"
    if "0 \<le> r \<and> r < rows \<and> 0 \<le> c \<and> c < cols" for r c
    unfolding cells [OF that] gol_value_def neighbor_sum_live [OF assms]
    by simp
  have "ch \<longleftrightarrow> (\<exists>r c. 0 \<le> r \<and> r < rows \<and> 0 \<le> c \<and> c < cols \<and> cell_at ng r c \<noteq> cell_at g r c)"
    unfolding ch using cells by metis
  with res ng rule show ?thesis by simp
qed

theorem gameOfLifeStep_rule_witness:
  "is_grid 3 3 [[0, 0, 0], [1, 1, 1], [0, 0, 0]] \<and> binary [[0, 0, 0], [1, 1, 1], [0, 0, 0]]
   \<and> (\<exists>res. gameOfLifeStep 3 3 [[0, 0, 0], [1, 1, 1], [0, 0, 0]] = Inr res
     \<and> (cell_at (newGrid res) 0 1 = 1 \<longleftrightarrow> live_neighbors 3 3 [[0, 0, 0], [1, 1, 1], [0, 0, 0]] 0 1 = 3)
     \<and> (hasChanged res \<longleftrightarrow>
          (\<exists>r c. 0 \<le> r \<and> r < 3 \<and> 0 \<le> c \<and> c < 3
             \<and> cell_at (newGrid res) r c \<noteq> cell_at [[0, 0, 0], [1, 1, 1], [0, 0, 0]] r c)))"
proof -
  let ?g = "[[0, 0, 0], [1, 1, 1], [0, 0, 0]] :: grid"
  have g: "is_grid 3 3 ?g" by (simp add: is_grid_def max_array_length_def)
  have b: "binary ?g" by (simp add: binary_def)
  from gameOfLifeStep_rule [OF g b] obtain res where res: "gameOfLifeStep 3 3 ?g = Inr res"
    and cells: "\<forall>r c. 0 \<le> r \<and> r < 3 \<and> 0 \<le> c \<and> c < 3 \<longrightarrow>
                 (cell_at (newGrid res) r c = 0 \<or> cell_at (newGrid res) r c = 1)
               \<and> (cell_at ?g r c = 1 \<longrightarrow>
                    (cell_at (newGrid res) r c = 1 \<longleftrightarrow>
                       live_neighbors 3 3 ?g r c = 2 \<or> live_neighbors 3 3 ?g r c = 3))
               \<and> (cell_at ?g r c = 0 \<longrightarrow>
                    (cell_at (newGrid res) r c = 1 \<longleftrightarrow> live_neighbors 3 3 ?g r c = 3))"
    and ch: "hasChanged res \<longleftrightarrow>
                (\<exists>r c. 0 \<le> r \<and> r < 3 \<and> 0 \<le> c \<and> c < 3
                       \<and> cell_at (newGrid res) r c \<noteq> cell_at ?g r c)"
    by blast
  have "cell_at ?g 0 1 = 0" by (simp add: cell_at_def)
  with cells have "cell_at (newGrid res) 0 1 = 1 \<longleftrightarrow> live_neighbors 3 3 ?g 0 1 = 3"
    by simp
  with g b res ch show ?thesis by simp
qed

subsection \<open>The other patterns\<close>

lemma set_upto_mem: "x \<in> set [a..b] \<Longrightarrow> a \<le> x \<and> x \<le> b"
  by simp

lemma set_cell_sound:
  assumes "sound rows cols g" "0 \<le> r" "r < rows" "0 \<le> c" "c < cols" "v = 0 \<or> v = 1"
  shows "\<exists>g'. set_cell g r c v = Inr g' \<and> sound rows cols g'"
  using assms set_cell_in_grid [of rows cols g r c v]
  by (auto simp: sound_def is_grid_upd binary_upd)

lemma foldE_grid_inv:
  assumes "I s"
    and "\<And>row col s. 0 \<le> row \<Longrightarrow> row < rows \<Longrightarrow> 0 \<le> col \<Longrightarrow> col < cols \<Longrightarrow> I s
           \<Longrightarrow> \<exists>s'. body row col s = Inr s' \<and> I s'"
  shows "\<exists>s'. foldE (\<lambda>row. foldE (\<lambda>col. body row col) [0..cols - 1]) [0..rows - 1] s = Inr s' \<and> I s'"
proof (rule foldE_inv [where I = I, OF assms(1)])
  fix row s assume row: "row \<in> set [0..rows - 1]" and s: "I s"
  show "\<exists>s'. foldE (\<lambda>col. body row col) [0..cols - 1] s = Inr s' \<and> I s'"
  proof (rule foldE_inv [where I = I, OF s])
    fix col s assume "col \<in> set [0..cols - 1]" and "I s"
    with row show "\<exists>s'. body row col s = Inr s' \<and> I s'"
      using assms(2) [of row col s] by simp
  qed
qed

lemma sound_empty:
  assumes "0 \<le> rows" "rows \<le> max_array_length" "0 \<le> cols" "cols \<le> max_array_length"
  shows "sound rows cols (replicate (nat rows) (replicate (nat cols) 0))"
  by (simp add: sound_def is_grid_replicate [OF assms] binary_replicate0)

lemma is_grid_dims:
  "is_grid rows cols g \<Longrightarrow> 0 \<le> rows \<and> rows \<le> max_array_length \<and> 0 \<le> cols \<and> cols \<le> max_array_length"
  by (simp add: is_grid_def)

lemma ebind_chain:
  assumes "\<exists>x. m = Inr x \<and> P x" and "\<And>x. P x \<Longrightarrow> \<exists>y. f x = Inr y \<and> Q y"
  shows "\<exists>y. ebind m f = Inr y \<and> Q y"
  using assms by auto

lemma createEmptyGrid_sound:
  assumes "is_grid rows cols g"
  shows "\<exists>x. createEmptyGrid rows cols = Inr x \<and> sound rows cols x"
  using is_grid_dims [OF assms] by (simp add: createEmptyGrid_ok sound_empty)

lemma waveStep_sound:
  assumes "is_grid rows cols g"
  shows "\<exists>res. waveStep rows cols g st = Inr res \<and> sound rows cols (newGrid res)"
  unfolding waveStep_def Let_def
  apply (rule ebind_chain [where P = "sound rows cols"])
   apply (rule createEmptyGrid_sound [OF assms])
  apply (rule ebind_chain [where P = "sound rows cols"])
   apply (rule foldE_grid_inv [where I = "sound rows cols"])
    apply assumption
   apply (rule set_cell_sound; simp)
  apply simp
  done

lemma spiralStep_sound:
  assumes "is_grid rows cols g"
  shows "\<exists>res. spiralStep rows cols g st = Inr res \<and> sound rows cols (newGrid res)"
  unfolding spiralStep_def Let_def
  apply (rule ebind_chain [where P = "sound rows cols"])
   apply (rule createEmptyGrid_sound [OF assms])
  apply (rule ebind_chain [where P = "sound rows cols"])
   apply (rule foldE_grid_inv [where I = "sound rows cols"])
    apply assumption
   apply (rule set_cell_sound; simp)
  apply simp
  done

lemma noiseStep_sound:
  assumes "is_grid rows cols g"
  shows "\<exists>res. noiseStep rows cols g rnd = Inr res \<and> sound rows cols (newGrid res)"
  unfolding noiseStep_def
  apply (rule ebind_chain [where P = "sound rows cols"])
   apply (rule createEmptyGrid_sound [OF assms])
  apply (rule ebind_chain [where P = "sound rows cols"])
   apply (rule foldE_grid_inv [where I = "sound rows cols"])
    apply assumption
   apply (rule set_cell_sound; simp)
  apply simp
  done

lemma draw_ripple_sound:
  assumes "sound rows cols ng"
  shows "\<exists>ng'. draw_ripple rows cols rp ng = Inr ng' \<and> sound rows cols ng'"
  unfolding draw_ripple_def Let_def
proof (rule foldE_grid_inv [where I = "sound rows cols", OF assms])
  fix row col s
  assume a: "0 \<le> row" "row < rows" "0 \<le> col" "col < cols" "sound rows cols s"
  have "\<exists>s'. set_cell s row col 1 = Inr s' \<and> sound rows cols s'"
    by (rule set_cell_sound [OF a(5) a(1-4)]) simp
  with a(5) show "\<exists>s'. (if \<bar>sqrt ((real_of_int (row - centerRow rp))\<^sup>2
                                   + (real_of_int (col - centerCol rp))\<^sup>2) - radius rp\<bar> < 1
                        then set_cell s row col 1 else Inr s) = Inr s' \<and> sound rows cols s'"
    by simp
qed

lemma ripple_update_sound:
  assumes "sound rows cols (snd (snd s))"
  shows "\<exists>s'. ripple_update rows cols i s = Inr s' \<and> sound rows cols (snd (snd s'))"
proof -
  obtain rs old ng where s: "s = (rs, old, ng)" by (cases s)
  with assms have ng: "sound rows cols ng" by simp
  let ?rp = "(rs ! nat i)\<lparr>radius := radius (rs ! nat i) + 1 / 2\<rparr>"
  from draw_ripple_sound [OF ng, of ?rp] obtain ng'
    where "draw_ripple rows cols ?rp ng = Inr ng'" "sound rows cols ng'" by blast
  with ng show ?thesis
    unfolding s ripple_update_def by (simp add: Let_def)
qed

lemma rippleStep_sound:
  assumes "is_grid rows cols g"
  shows "\<exists>res. rippleStep rows cols g st rnd = Inr res \<and> sound rows cols (newGrid (fst res))"
  unfolding rippleStep_def Let_def
  apply (rule ebind_chain [where P = "sound rows cols"])
   apply (rule createEmptyGrid_sound [OF assms])
  apply (rule ebind_chain [where P = "\<lambda>s. sound rows cols (snd (snd s))"])
   apply (rule foldE_inv [where I = "\<lambda>s. sound rows cols (snd (snd s))"])
    apply simp
   apply (rule ripple_update_sound)
   apply assumption
  apply (simp add: case_prod_unfold)
  done

lemma cond_set_cell_sound:
  assumes "sound rows cols g" "0 \<le> r" "r < rows" "0 \<le> c" "c < cols" "v = 0 \<or> v = 1"
  shows "\<exists>g'. (if b then set_cell g r c v else Inr g) = Inr g' \<and> sound rows cols g'"
  using set_cell_sound [OF assms] assms(1) by simp

lemma rain_move_sound:
  assumes g: "is_grid rows cols g" and s: "sound rows cols s"
    and r: "1 \<le> row" "row < rows" and c: "0 \<le> col" "col < cols"
  shows "\<exists>s'. ebind (cell g (row - 1) col) (\<lambda>above.
                 if above = 1
                 then ebind (set_cell s row col 1) (\<lambda>ng'. set_cell ng' (row - 1) col 0)
                 else Inr s) = Inr s' \<and> sound rows cols s'"
proof -
  have rd: "cell g (row - 1) col = Inr (cell_at g (row - 1) col)"
    by (rule cell_in_grid [OF g]) (use r c in auto)
  obtain s1 where s1: "set_cell s row col 1 = Inr s1" "sound rows cols s1"
    using set_cell_sound [OF s, of row col 1] r c by auto
  obtain s2 where s2: "set_cell s1 (row - 1) col 0 = Inr s2" "sound rows cols s2"
    using set_cell_sound [OF s1(2), of "row - 1" col 0] r c by auto
  show ?thesis using rd s1 s2 s by simp
qed

lemma rainStep_sound:
  assumes g: "sound rows cols g" and rows: "0 < rows"
  shows "\<exists>res. rainStep rows cols g rnd = Inr res \<and> sound rows cols (newGrid res)"
proof -
  have ig: "is_grid rows cols g" using g by (simp add: sound_def)
  show ?thesis
    unfolding rainStep_def copy_grid_id
    apply (rule ebind_chain [where P = "sound rows cols"])
     apply (rule foldE_inv [where I = "sound rows cols", OF g])
     apply (rule cond_set_cell_sound; use rows in simp)
    apply (rule ebind_chain [where P = "sound rows cols"])
     apply (rule foldE_inv [where I = "sound rows cols"])
      apply assumption
     apply (rule foldE_inv [where I = "sound rows cols"])
      apply assumption
     apply (rule rain_move_sound [OF ig]; simp)
    apply (rule ebind_chain [where P = "sound rows cols"])
     apply (rule foldE_inv [where I = "sound rows cols"])
      apply assumption
     apply (rule cond_set_cell_sound; use rows in simp)
    apply simp
    done
qed

lemma shows_cells_self: "is_grid rows cols g \<Longrightarrow> shows_cells rows cols g (cell_at g)"
  by (simp add: shows_cells_def)

lemma shows_cells_cong:
  assumes "shows_cells rows cols g f"
    and "\<And>i j. 0 \<le> i \<Longrightarrow> i < rows \<Longrightarrow> 0 \<le> j \<Longrightarrow> j < cols \<Longrightarrow> f i j = f' i j"
  shows "shows_cells rows cols g f'"
  using assms by (simp add: shows_cells_def)

lemma shows_cells_set:
  assumes "shows_cells rows cols g f" and "0 \<le> r" "r < rows" "0 \<le> c" "c < cols"
    and "\<And>i j. 0 \<le> i \<Longrightarrow> i < rows \<Longrightarrow> 0 \<le> j \<Longrightarrow> j < cols
           \<Longrightarrow> f' i j = (if i = r \<and> j = c then v else f i j)"
  shows "\<exists>g'. set_cell g r c v = Inr g' \<and> shows_cells rows cols g' f'"
proof -
  have g: "is_grid rows cols g" using assms(1) by (simp add: shows_cells_def)
  have "shows_cells rows cols (upd g r c v) f'"
    unfolding shows_cells_def
  proof (intro conjI allI impI)
    show "is_grid rows cols (upd g r c v)" by (rule is_grid_upd [OF g])
    fix i j assume a: "0 \<le> i \<and> i < rows \<and> 0 \<le> j \<and> j < cols"
    then have "cell_at (upd g r c v) i j = (if i = r \<and> j = c then v else cell_at g i j)"
      using cell_at_upd [OF g assms(2-5), of i j v] by simp
    also have "\<dots> = f' i j"
      using a assms(1,6) by (simp add: shows_cells_def)
    finally show "cell_at (upd g r c v) i j = f' i j" .
  qed
  then show ?thesis using set_cell_in_grid [OF g assms(2-5)] by simp
qed

lemma rule30_lookup_binary:
  assumes "l = 0 \<or> l = 1" "c = 0 \<or> c = 1" "r = 0 \<or> r = 1"
  shows "rule30_lookup (rule30_pattern l c r) = Inr (rule30_table ! nat (l * 4 + c * 2 + r))"
  using assms by (auto simp: rule30_lookup_def rule30_pattern_def rule30_table_def)

lemma rule30_table_binary:
  assumes "l = 0 \<or> l = 1" "c = 0 \<or> c = 1" "r = 0 \<or> r = 1"
  shows "rule30_table ! nat (l * 4 + c * 2 + r) = 0 \<or> rule30_table ! nat (l * 4 + c * 2 + r) = 1"
  using assms by (auto simp: rule30_table_def)

text \<open>The first loop of rule30Step, on the middle row.\<close>

lemma rule30_middle_step:
  assumes g: "is_grid rows cols g" "binary g" and rows: "0 < rows"
    and k: "1 \<le> k" "k \<le> cols - 2"
    and inv: "shows_cells rows cols ng
                (\<lambda>i j. if i = rows div 2 \<and> 1 \<le> j \<and> j < k then rule30_value g i j else cell_at g i j)"
  shows "\<exists>ng'. ebind (cell g (rows div 2) (k - 1)) (\<lambda>left.
               ebind (cell g (rows div 2) k) (\<lambda>center.
               ebind (cell g (rows div 2) (k + 1)) (\<lambda>right.
               ebind (rule30_lookup (rule30_pattern left center right)) (\<lambda>v.
               set_cell ng (rows div 2) k v)))) = Inr ng'
           \<and> shows_cells rows cols ng'
                (\<lambda>i j. if i = rows div 2 \<and> 1 \<le> j \<and> j < k + 1 then rule30_value g i j else cell_at g i j)"
proof -
  let ?m = "rows div 2"
  have m: "0 \<le> ?m" "?m < rows" using rows by simp_all
  have rd: "cell g ?m (k - 1) = Inr (cell_at g ?m (k - 1))"
    "cell g ?m k = Inr (cell_at g ?m k)" "cell g ?m (k + 1) = Inr (cell_at g ?m (k + 1))"
    using k by (auto intro!: cell_in_grid [OF g(1) m])
  have b: "cell_at g ?m (k - 1) = 0 \<or> cell_at g ?m (k - 1) = 1"
    "cell_at g ?m k = 0 \<or> cell_at g ?m k = 1" "cell_at g ?m (k + 1) = 0 \<or> cell_at g ?m (k + 1) = 1"
    using k binary_cell_at [OF g m, of "k - 1"] binary_cell_at [OF g m, of k]
      binary_cell_at [OF g m, of "k + 1"] by simp_all
  have lk: "rule30_lookup (rule30_pattern (cell_at g ?m (k - 1)) (cell_at g ?m k) (cell_at g ?m (k + 1)))
              = Inr (rule30_value g ?m k)"
    unfolding rule30_value_def by (rule rule30_lookup_binary [OF b])
  have "\<exists>ng'. set_cell ng ?m k (rule30_value g ?m k) = Inr ng'
           \<and> shows_cells rows cols ng'
                (\<lambda>i j. if i = ?m \<and> 1 \<le> j \<and> j < k + 1 then rule30_value g i j else cell_at g i j)"
    by (rule shows_cells_set [OF inv m]) (use k in auto)
  then show ?thesis by (simp add: rd lk)
qed

lemma rule30_middle_loop:
  assumes g: "is_grid rows cols g" "binary g" and rows: "0 < rows" and cols: "0 < cols"
  shows "\<exists>ng. foldE (\<lambda>col ng.
                ebind (cell g (rows div 2) (col - 1)) (\<lambda>left.
                ebind (cell g (rows div 2) col) (\<lambda>center.
                ebind (cell g (rows div 2) (col + 1)) (\<lambda>right.
                ebind (rule30_lookup (rule30_pattern left center right)) (\<lambda>v.
                set_cell ng (rows div 2) col v)))))
              [1..cols - 2] g = Inr ng
          \<and> shows_cells rows cols ng
               (\<lambda>i j. if i = rows div 2 \<and> 1 \<le> j \<and> j < cols - 1 then rule30_value g i j
                       else cell_at g i j)"
proof (cases "2 \<le> cols")
  case True
  have "\<exists>ng. foldE (\<lambda>col ng.
                ebind (cell g (rows div 2) (col - 1)) (\<lambda>left.
                ebind (cell g (rows div 2) col) (\<lambda>center.
                ebind (cell g (rows div 2) (col + 1)) (\<lambda>right.
                ebind (rule30_lookup (rule30_pattern left center right)) (\<lambda>v.
                set_cell ng (rows div 2) col v)))))
              [1..cols - 2] g = Inr ng
          \<and> shows_cells rows cols ng
               (\<lambda>i j. if i = rows div 2 \<and> 1 \<le> j \<and> j < cols - 2 + 1 then rule30_value g i j
                       else cell_at g i j)"
  proof (rule foldE_upto [where P = "\<lambda>k ng. shows_cells rows cols ng
               (\<lambda>i j. if i = rows div 2 \<and> 1 \<le> j \<and> j < k then rule30_value g i j else cell_at g i j)"])
    show "1 \<le> cols - 2 + 1" using True by simp
    show "shows_cells rows cols g
            (\<lambda>i j. if i = rows div 2 \<and> 1 \<le> j \<and> j < 1 then rule30_value g i j else cell_at g i j)"
      using g(1) by (simp add: shows_cells_def)
  qed (rule rule30_middle_step [OF g rows])
  then show ?thesis by simp
next
  case False
  then have "[1..cols - 2] = []" by simp
  moreover have "shows_cells rows cols g
               (\<lambda>i j. if i = rows div 2 \<and> 1 \<le> j \<and> j < cols - 1 then rule30_value g i j
                       else cell_at g i j)"
    using g(1) False by (auto simp: shows_cells_def)
  ultimately show ?thesis by simp
qed

text \<open>The inner loop of the shift, from the last column down to column 1.\<close>

lemma rule30_shift_row:
  assumes g: "is_grid rows cols g" and cols: "0 < cols"
    and r: "0 \<le> r" "r < rows"
    and inv: "shows_cells rows cols ng F"
  shows "\<exists>ng'. foldE (\<lambda>col s. ebind (cell g r (col - 1)) (\<lambda>v. set_cell s r col v))
                 (rev [1..cols - 1]) ng = Inr ng'
           \<and> shows_cells rows cols ng'
                (\<lambda>i j. if i = r \<and> 1 \<le> j then cell_at g r (j - 1) else F i j)"
proof (rule foldE_rev_upto [where P = "\<lambda>k s. shows_cells rows cols s
                (\<lambda>i j. if i = r \<and> k \<le> j then cell_at g r (j - 1) else F i j)"])
  show "1 \<le> cols - 1 + 1" using cols by simp
  show "shows_cells rows cols ng
          (\<lambda>i j. if i = r \<and> cols - 1 + 1 \<le> j then cell_at g r (j - 1) else F i j)"
    by (rule shows_cells_cong [OF inv]) simp
next
  fix k s
  assume k: "1 \<le> k" "k \<le> cols - 1"
    and s: "shows_cells rows cols s
              (\<lambda>i j. if i = r \<and> k + 1 \<le> j then cell_at g r (j - 1) else F i j)"
  have rd: "cell g r (k - 1) = Inr (cell_at g r (k - 1))"
    by (rule cell_in_grid [OF g r]) (use k in auto)
  have "\<exists>s'. set_cell s r k (cell_at g r (k - 1)) = Inr s'
          \<and> shows_cells rows cols s'
               (\<lambda>i j. if i = r \<and> k \<le> j then cell_at g r (j - 1) else F i j)"
    by (rule shows_cells_set [OF s r]) (use k in auto)
  then show "\<exists>s'. ebind (cell g r (k - 1)) (\<lambda>v. set_cell s r k v) = Inr s'
          \<and> shows_cells rows cols s'
               (\<lambda>i j. if i = r \<and> k \<le> j then cell_at g r (j - 1) else F i j)"
    by (simp add: rd)
qed

lemma rule30_shift_step:
  assumes g: "is_grid rows cols g" and cols: "0 < cols"
    and r: "0 \<le> r" "r < rows"
    and inv: "shows_cells rows cols ng
                (\<lambda>i j. if i < r \<or> i = rows div 2 then rule30_next rows cols g i j else cell_at g i j)"
  shows "\<exists>ng'. (if r \<noteq> rows div 2
                then ebind (foldE (\<lambda>col s. ebind (cell g r (col - 1)) (\<lambda>v. set_cell s r col v))
                              (rev [1..cols - 1]) ng) (\<lambda>s. set_cell s r 0 0)
                else Inr ng) = Inr ng'
           \<and> shows_cells rows cols ng'
                (\<lambda>i j. if i < r + 1 \<or> i = rows div 2 then rule30_next rows cols g i j
                        else cell_at g i j)"
proof (cases "r = rows div 2")
  case True
  have "shows_cells rows cols ng
          (\<lambda>i j. if i < r + 1 \<or> i = rows div 2 then rule30_next rows cols g i j else cell_at g i j)"
    by (rule shows_cells_cong [OF inv]) (use True in auto)
  with True show ?thesis by simp
next
  case False
  let ?F = "\<lambda>i j. if i < r \<or> i = rows div 2 then rule30_next rows cols g i j else cell_at g i j"
  from rule30_shift_row [OF g cols r inv] obtain s
    where s: "foldE (\<lambda>col s. ebind (cell g r (col - 1)) (\<lambda>v. set_cell s r col v))
                 (rev [1..cols - 1]) ng = Inr s"
      and ss: "shows_cells rows cols s (\<lambda>i j. if i = r \<and> 1 \<le> j then cell_at g r (j - 1) else ?F i j)"
    by blast
  have "\<exists>ng'. set_cell s r 0 0 = Inr ng'
          \<and> shows_cells rows cols ng'
                (\<lambda>i j. if i < r + 1 \<or> i = rows div 2 then rule30_next rows cols g i j
                        else cell_at g i j)"
    by (rule shows_cells_set [OF ss r]) (use cols False in \<open>auto simp: rule30_next_def\<close>)
  with False s show ?thesis by simp
qed

lemma rule30Step_cells:
  assumes g: "is_grid rows cols g" "binary g" and rows: "0 < rows" and cols: "0 < cols"
  shows "\<exists>ng. rule30Step rows cols g
             = Inr \<lparr>newGrid = ng, hasChanged = True, nextPatternState = None\<rparr>
           \<and> shows_cells rows cols ng (rule30_next rows cols g)"
proof -
  let ?m = "rows div 2"
  from rule30_middle_loop [OF g rows cols] obtain ng1
    where l1: "foldE (\<lambda>col ng.
                ebind (cell g ?m (col - 1)) (\<lambda>left.
                ebind (cell g ?m col) (\<lambda>center.
                ebind (cell g ?m (col + 1)) (\<lambda>right.
                ebind (rule30_lookup (rule30_pattern left center right)) (\<lambda>v.
                set_cell ng ?m col v)))))
              [1..cols - 2] g = Inr ng1"
      and s1: "shows_cells rows cols ng1
               (\<lambda>i j. if i = ?m \<and> 1 \<le> j \<and> j < cols - 1 then rule30_value g i j
                       else cell_at g i j)"
    by blast
  have "\<exists>ng. foldE (\<lambda>row ng.
                if row \<noteq> ?m
                then ebind (foldE (\<lambda>col s. ebind (cell g row (col - 1)) (\<lambda>v. set_cell s row col v))
                              (rev [1..cols - 1]) ng) (\<lambda>s. set_cell s row 0 0)
                else Inr ng)
              [0..rows - 1] ng1 = Inr ng
          \<and> shows_cells rows cols ng
               (\<lambda>i j. if i < rows - 1 + 1 \<or> i = ?m then rule30_next rows cols g i j
                       else cell_at g i j)"
  proof (rule foldE_upto [where P = "\<lambda>r ng. shows_cells rows cols ng
               (\<lambda>i j. if i < r \<or> i = ?m then rule30_next rows cols g i j else cell_at g i j)"])
    show "0 \<le> rows - 1 + 1" using rows by simp
    show "shows_cells rows cols ng1
            (\<lambda>i j. if i < 0 \<or> i = ?m then rule30_next rows cols g i j else cell_at g i j)"
      by (rule shows_cells_cong [OF s1]) (auto simp: rule30_next_def)
  next
    fix k s
    assume "0 \<le> k" "k \<le> rows - 1"
      and "shows_cells rows cols s
             (\<lambda>i j. if i < k \<or> i = ?m then rule30_next rows cols g i j else cell_at g i j)"
    then show "\<exists>s'. (if k \<noteq> ?m
                then ebind (foldE (\<lambda>col s. ebind (cell g k (col - 1)) (\<lambda>v. set_cell s k col v))
                              (rev [1..cols - 1]) s) (\<lambda>s. set_cell s k 0 0)
                else Inr s) = Inr s'
           \<and> shows_cells rows cols s'
                (\<lambda>i j. if i < k + 1 \<or> i = ?m then rule30_next rows cols g i j
                        else cell_at g i j)"
      by (intro rule30_shift_step [OF g(1) cols]) auto
  qed
  then obtain ng where l2: "foldE (\<lambda>row ng.
                if row \<noteq> ?m
                then ebind (foldE (\<lambda>col s. ebind (cell g row (col - 1)) (\<lambda>v. set_cell s row col v))
                              (rev [1..cols - 1]) ng) (\<lambda>s. set_cell s row 0 0)
                else Inr ng)
              [0..rows - 1] ng1 = Inr ng"
    and s2: "shows_cells rows cols ng
               (\<lambda>i j. if i < rows - 1 + 1 \<or> i = ?m then rule30_next rows cols g i j
                       else cell_at g i j)"
    by blast
  have "shows_cells rows cols ng (rule30_next rows cols g)"
    by (rule shows_cells_cong [OF s2]) simp
  moreover have "rule30Step rows cols g
             = Inr \<lparr>newGrid = ng, hasChanged = True, nextPatternState = None\<rparr>"
    unfolding rule30Step_def Let_def copy_grid_id by (simp add: l1 l2)
  ultimately show ?thesis by blast
qed

lemma rule30_next_binary:
  assumes g: "is_grid rows cols g" "binary g" and rows: "0 < rows"
    and i: "0 \<le> i" "i < rows" and j: "0 \<le> j" "j < cols"
  shows "rule30_next rows cols g i j = 0 \<or> rule30_next rows cols g i j = 1"
proof (cases "i = rows div 2 \<and> 0 < j \<and> j < cols - 1")
  case True
  have "cell_at g i (j - 1) = 0 \<or> cell_at g i (j - 1) = 1"
    "cell_at g i j = 0 \<or> cell_at g i j = 1" "cell_at g i (j + 1) = 0 \<or> cell_at g i (j + 1) = 1"
    using True binary_cell_at [OF g i, of "j - 1"] binary_cell_at [OF g i, of j]
      binary_cell_at [OF g i, of "j + 1"] by simp_all
  from rule30_table_binary [OF this] True show ?thesis
    by (simp add: rule30_next_def rule30_value_def)
next
  case False
  then show ?thesis
    using binary_cell_at [OF g i, of j] binary_cell_at [OF g i, of "j - 1"] j
    by (auto simp: rule30_next_def)
qed

lemma rule30Step_sound:
  assumes "sound rows cols g" and rows: "0 < rows" and cols: "0 < cols"
  shows "\<exists>res. rule30Step rows cols g = Inr res \<and> sound rows cols (newGrid res)"
proof -
  have g: "is_grid rows cols g" "binary g" using assms(1) by (simp_all add: sound_def)
  from rule30Step_cells [OF g rows cols] obtain ng
    where res: "rule30Step rows cols g = Inr \<lparr>newGrid = ng, hasChanged = True, nextPatternState = None\<rparr>"
      and ng: "is_grid rows cols ng"
      and cells: "\<And>i j. 0 \<le> i \<and> i < rows \<and> 0 \<le> j \<and> j < cols
                   \<Longrightarrow> cell_at ng i j = rule30_next rows cols g i j"
    by (auto simp: shows_cells_def)
  have "binary ng"
    by (rule binaryI [OF ng]) (use cells rule30_next_binary [OF g rows] in auto)
  with res ng show ?thesis by (simp add: sound_def)
qed

text \<open>
  C7 as stated fails on a narrow grid: the columns next to the centre are then edge
  columns, which the step does not write. With three columns the seed \<open>0,1,0\<close> stays
  \<open>0,1,0\<close>, with four columns the seed \<open>0,0,1,0\<close> becomes \<open>0,1,1,0\<close>.
\<close>

theorem rule30_seed_counterexample:
  "rule30Step 3 3 [[0, 0, 0], [0, 1, 0], [0, 0, 0]]
     = Inr \<lparr>newGrid = [[0, 0, 0], [0, 1, 0], [0, 0, 0]], hasChanged = True,
            nextPatternState = None\<rparr>
   \<and> rule30Step 3 4 [[0, 0, 0, 0], [0, 0, 1, 0], [0, 0, 0, 0]]
     = Inr \<lparr>newGrid = [[0, 0, 0, 0], [0, 1, 1, 0], [0, 0, 0, 0]], hasChanged = True,
            nextPatternState = None\<rparr>"
  by (simp add: rule30Step_def cell_def set_cell_def upto_rec1 rule30_lookup_def
      rule30_pattern_def rule30_table_def)

text \<open>
  C7, amended: on a \<open>rows \<times> cols\<close> grid of cells 0 and 1 one Rule 30 step writes, in every
  interior column of the middle row, the entry of the table \<open>[0,1,1,1,1,0,0,0]\<close> at index
  \<open>left * 4 + center * 2 + right\<close> of the old middle row, leaves the two edge columns of
  the middle row as they are, and moves every other row one column to the right, with 0
  in column 0. On a grid of at least five columns whose only live cell is the centre
  cell, the result has exactly the three live cells around the centre of the middle
  row.
\<close>

theorem rule30Step_rule:
  assumes "is_grid rows cols g" and "binary g" and "0 < rows" and "0 < cols"
  shows "\<exists>res. rule30Step rows cols g = Inr res
           \<and> is_grid rows cols (newGrid res) \<and> hasChanged res
           \<and> (\<forall>c. 0 < c \<and> c < cols - 1 \<longrightarrow>
                 cell_at (newGrid res) (rows div 2) c =
                   [0, 1, 1, 1, 1, 0, 0, 0] !
                     nat (cell_at g (rows div 2) (c - 1) * 4 + cell_at g (rows div 2) c * 2
                          + cell_at g (rows div 2) (c + 1)))
           \<and> cell_at (newGrid res) (rows div 2) 0 = cell_at g (rows div 2) 0
           \<and> cell_at (newGrid res) (rows div 2) (cols - 1) = cell_at g (rows div 2) (cols - 1)
           \<and> (\<forall>r c. 0 \<le> r \<and> r < rows \<and> r \<noteq> rows div 2 \<and> 0 < c \<and> c < cols \<longrightarrow>
                 cell_at (newGrid res) r c = cell_at g r (c - 1))
           \<and> (\<forall>r. 0 \<le> r \<and> r < rows \<and> r \<noteq> rows div 2 \<longrightarrow> cell_at (newGrid res) r 0 = 0)
           \<and> (5 \<le> cols
                \<and> (\<forall>r c. 0 \<le> r \<and> r < rows \<and> 0 \<le> c \<and> c < cols \<longrightarrow>
                      cell_at g r c = (if r = rows div 2 \<and> c = cols div 2 then 1 else 0))
              \<longrightarrow> (\<forall>r c. 0 \<le> r \<and> r < rows \<and> 0 \<le> c \<and> c < cols \<longrightarrow>
                      cell_at (newGrid res) r c =
                        (if r = rows div 2
                            \<and> (c = cols div 2 - 1 \<or> c = cols div 2 \<or> c = cols div 2 + 1)
                         then 1 else 0)))"
proof -
  let ?m = "rows div 2"
  have m: "0 \<le> ?m" "?m < rows" using assms(3) by simp_all
  from rule30Step_cells [OF assms] obtain ng
    where res: "rule30Step rows cols g = Inr \<lparr>newGrid = ng, hasChanged = True, nextPatternState = None\<rparr>"
      and ng: "is_grid rows cols ng"
      and cells: "\<And>i j. 0 \<le> i \<Longrightarrow> i < rows \<Longrightarrow> 0 \<le> j \<Longrightarrow> j < cols
                   \<Longrightarrow> cell_at ng i j = rule30_next rows cols g i j"
    by (auto simp: shows_cells_def)
  have 1: "cell_at ng ?m c =
             [0, 1, 1, 1, 1, 0, 0, 0] !
               nat (cell_at g ?m (c - 1) * 4 + cell_at g ?m c * 2 + cell_at g ?m (c + 1))"
    if "0 < c \<and> c < cols - 1" for c
    using cells [OF m, of c] that by (simp add: rule30_next_def rule30_value_def rule30_table_def)
  have 2: "cell_at ng ?m 0 = cell_at g ?m 0" "cell_at ng ?m (cols - 1) = cell_at g ?m (cols - 1)"
    using cells [OF m, of 0] cells [OF m, of "cols - 1"] assms(4) by (simp_all add: rule30_next_def)
  have 3: "cell_at ng r c = cell_at g r (c - 1)"
    if "0 \<le> r \<and> r < rows \<and> r \<noteq> ?m \<and> 0 < c \<and> c < cols" for r c
    using cells [of r c] that by (simp add: rule30_next_def)
  have 4: "cell_at ng r 0 = 0" if "0 \<le> r \<and> r < rows \<and> r \<noteq> ?m" for r
    using cells [of r 0] that assms(4) by (simp add: rule30_next_def)
  have 5: "cell_at ng r c = (if r = ?m \<and> (c = cols div 2 - 1 \<or> c = cols div 2 \<or> c = cols div 2 + 1)
                             then 1 else 0)"
    if wide: "5 \<le> cols"
      and seed: "\<forall>r c. 0 \<le> r \<and> r < rows \<and> 0 \<le> c \<and> c < cols \<longrightarrow>
                      cell_at g r c = (if r = ?m \<and> c = cols div 2 then 1 else 0)"
      and rc: "0 \<le> r \<and> r < rows \<and> 0 \<le> c \<and> c < cols" for r c
  proof (cases "r = ?m")
    case False
    show ?thesis
    proof (cases "c = 0")
      case True
      with False rc show ?thesis using 4 [of r] by simp
    next
      case c: False
      with False rc have "cell_at ng r c = cell_at g r (c - 1)" using 3 [of r c] by simp
      also have "\<dots> = 0" using seed False rc c by simp
      finally show ?thesis using False by simp
    qed
  next
    case True
    show ?thesis
    proof (cases "0 < c \<and> c < cols - 1")
      case False
      with rc have e: "c = 0 \<or> c = cols - 1" by auto
      then have "cell_at ng r c = cell_at g r c" using 2 True by auto
      also have "\<dots> = 0" using seed rc True e wide by auto
      finally show ?thesis using e wide by auto
    next
      case interior: True
      have l: "cell_at g ?m (c - 1) = (if c - 1 = cols div 2 then 1 else 0)"
        and mm: "cell_at g ?m c = (if c = cols div 2 then 1 else 0)"
        and rr: "cell_at g ?m (c + 1) = (if c + 1 = cols div 2 then 1 else 0)"
        using seed m interior by simp_all
      show ?thesis
        unfolding True 1 [OF interior] l mm rr by auto
    qed
  qed
  show ?thesis
    using res ng 1 2 3 4 5 by simp
qed

lemma in_3: "0 \<le> r \<Longrightarrow> r < 3 \<Longrightarrow> r = 0 \<or> r = 1 \<or> r = (2::int)"
  by arith

lemma in_5: "0 \<le> c \<Longrightarrow> c < 5 \<Longrightarrow> c = 0 \<or> c = 1 \<or> c = 2 \<or> c = 3 \<or> c = (4::int)"
  by arith

theorem rule30Step_rule_witness:
  "is_grid 3 5 seed_3x5 \<and> binary seed_3x5
   \<and> (\<exists>res. rule30Step 3 5 seed_3x5 = Inr res
         \<and> cell_at (newGrid res) 1 0 = 0 \<and> cell_at (newGrid res) 1 1 = 1
         \<and> cell_at (newGrid res) 1 2 = 1 \<and> cell_at (newGrid res) 1 3 = 1
         \<and> cell_at (newGrid res) 1 4 = 0 \<and> cell_at (newGrid res) 0 2 = 0
         \<and> cell_at (newGrid res) 2 2 = 0)"
proof -
  have g: "is_grid 3 5 seed_3x5" by (simp add: is_grid_def seed_3x5_def max_array_length_def)
  have b: "binary seed_3x5" by (simp add: binary_def seed_3x5_def)
  have seed: "\<forall>r c. 0 \<le> r \<and> r < 3 \<and> 0 \<le> c \<and> c < 5 \<longrightarrow>
                cell_at seed_3x5 r c = (if r = 3 div 2 \<and> c = 5 div 2 then 1 else 0)"
  proof (intro allI impI)
    fix r c :: int assume "0 \<le> r \<and> r < 3 \<and> 0 \<le> c \<and> c < 5"
    then have "r = 0 \<or> r = 1 \<or> r = 2" "c = 0 \<or> c = 1 \<or> c = 2 \<or> c = 3 \<or> c = 4"
      using in_3 in_5 by blast+
    then show "cell_at seed_3x5 r c = (if r = 3 div 2 \<and> c = 5 div 2 then 1 else 0)"
      by (auto simp: cell_at_def seed_3x5_def)
  qed
  from rule30Step_rule [OF g b] obtain res
    where res: "rule30Step 3 5 seed_3x5 = Inr res"
      and cells: "5 \<le> (5::int)
                \<and> (\<forall>r c. 0 \<le> r \<and> r < 3 \<and> 0 \<le> c \<and> c < 5 \<longrightarrow>
                      cell_at seed_3x5 r c = (if r = 3 div 2 \<and> c = 5 div 2 then 1 else 0))
              \<longrightarrow> (\<forall>r c. 0 \<le> r \<and> r < 3 \<and> 0 \<le> c \<and> c < 5 \<longrightarrow>
                      cell_at (newGrid res) r c =
                        (if r = 3 div 2
                            \<and> (c = 5 div 2 - 1 \<or> c = 5 div 2 \<or> c = 5 div 2 + 1)
                         then 1 else 0))"
    by auto
  from cells seed have "\<forall>r c. 0 \<le> r \<and> r < 3 \<and> 0 \<le> c \<and> c < 5 \<longrightarrow>
                      cell_at (newGrid res) r c =
                        (if r = 3 div 2
                            \<and> (c = 5 div 2 - 1 \<or> c = 5 div 2 \<or> c = 5 div 2 + 1)
                         then 1 else 0)"
    by simp
  then have "cell_at (newGrid res) 1 0 = 0 \<and> cell_at (newGrid res) 1 1 = 1
         \<and> cell_at (newGrid res) 1 2 = 1 \<and> cell_at (newGrid res) 1 3 = 1
         \<and> cell_at (newGrid res) 1 4 = 0 \<and> cell_at (newGrid res) 0 2 = 0
         \<and> cell_at (newGrid res) 2 2 = 0"
    by simp
  with g b res show ?thesis by blast
qed


subsection \<open>The emitters of Ripple\<close>

lemma foldE_rev_upto_result:
  assumes "a \<le> b + 1" and "P (b + 1) s"
    and "\<And>k s s'. a \<le> k \<Longrightarrow> k \<le> b \<Longrightarrow> P (k + 1) s \<Longrightarrow> f k s = Inr s' \<Longrightarrow> P k s'"
    and "foldE f (rev [a..b]) s = Inr s'"
  shows "P a s'"
  using assms
proof (induction "nat (b + 1 - a)" arbitrary: b s)
  case 0
  then have "a = b + 1" by simp
  with 0 show ?case by simp
next
  case (Suc n)
  then have ab: "a \<le> b" by linarith
  have r: "rev [a..b] = b # rev [a..b - 1]" using ab by (simp add: upto_rec2)
  from Suc.prems(4) obtain s1 where s1: "f b s = Inr s1" "foldE f (rev [a..b - 1]) s1 = Inr s'"
    unfolding r by (auto split: sum.splits)
  have p1: "P b s1" using Suc.prems(3) [OF ab _ Suc.prems(2) s1(1)] by simp
  show ?case
  proof (rule Suc.hyps(1) [of "b - 1" s1])
    show "n = nat (b - 1 + 1 - a)" using Suc.hyps(2) by linarith
    show "a \<le> b - 1 + 1" using ab by simp
    show "P (b - 1 + 1) s1" using p1 by simp
    show "\<And>k s s'. a \<le> k \<Longrightarrow> k \<le> b - 1 \<Longrightarrow> P (k + 1) s \<Longrightarrow> f k s = Inr s' \<Longrightarrow> P k s'"
      using Suc.prems(3) by simp
    show "foldE f (rev [a..b - 1]) s1 = Inr s'" by (rule s1(2))
  qed
qed

lemma ripple_update_touched:
  assumes k: "0 \<le> k" "k \<le> int (length new0) - 1"
    and new0: "take (length old) new0 = old" "length old \<le> length new0"
    and inv: "take (nat (k + 1)) rs = take (nat (k + 1)) new0" "nat (k + 1) \<le> length rs"
      "old' = take (nat (k + 1)) old @ map grown (drop (nat (k + 1)) old)"
    and step: "ripple_update rows cols k (rs, old', ng) = Inr (rs1, old1, ng1)"
  shows "take (nat k) rs1 = take (nat k) new0 \<and> nat k \<le> length rs1
         \<and> old1 = take (nat k) old @ map grown (drop (nat k) old)"
proof -
  let ?k = "nat k"
  have sk: "nat (k + 1) = Suc ?k" using k by simp
  have klen: "?k < length rs" using inv(2) sk by simp
  have "rs ! ?k = take (Suc ?k) rs ! ?k" by simp
  also have "\<dots> = take (Suc ?k) new0 ! ?k" using inv(1) sk by simp
  also have "\<dots> = new0 ! ?k" by simp
  finally have rsk: "rs ! ?k = new0 ! ?k" .
  let ?rp = "grown (rs ! ?k)"
  have tk: "take ?k rs = take ?k new0"
  proof -
    have "take ?k rs = take ?k (take (Suc ?k) rs)" by simp
    also have "\<dots> = take ?k (take (Suc ?k) new0)" using inv(1) sk by simp
    also have "\<dots> = take ?k new0" by simp
    finally show ?thesis .
  qed
  have len: "length old' = length old" unfolding inv(3) by simp
  have old1: "old1 = (if k < int (length old) then old'[?k := ?rp] else old')"
    and rs1: "rs1 = take ?k rs @ drop (?k + 1) rs \<or> rs1 = rs[?k := ?rp]"
    using step unfolding len [symmetric]
    by (auto simp: ripple_update_def grown_def Let_def ebind_def split: if_splits sum.splits)
  have a: "take ?k rs1 = take ?k new0"
  proof -
    have "take ?k (take ?k rs @ drop (?k + 1) rs) = take ?k rs" using klen by simp
    moreover have "take ?k (rs[?k := ?rp]) = take ?k rs" by simp
    ultimately show ?thesis using rs1 tk by auto
  qed
  have b: "?k \<le> length rs1" using rs1 klen by auto
  have c: "old1 = take ?k old @ map grown (drop ?k old)"
  proof (cases "k < int (length old)")
    case True
    then have ko: "?k < length old" using k by simp
    have "new0 ! ?k = take (length old) new0 ! ?k" using ko by simp
    then have nk: "new0 ! ?k = old ! ?k" using new0(1) by simp
    have d: "drop ?k old = old ! ?k # drop (Suc ?k) old"
      using ko by (simp add: Cons_nth_drop_Suc)
    have t: "take (Suc ?k) old = take ?k old @ [old ! ?k]"
      using ko by (simp add: take_Suc_conv_app_nth)
    have "old1 = (take (Suc ?k) old @ map grown (drop (Suc ?k) old))[?k := ?rp]"
      using old1 True inv(3) sk by simp
    also have "\<dots> = take ?k old @ ?rp # map grown (drop (Suc ?k) old)"
      using ko by (simp add: t list_update_append)
    finally show ?thesis using d rsk nk by simp
  next
    case False
    then have "length old \<le> ?k" using k by simp
    then show ?thesis using old1 False inv(3) sk by simp
  qed
  from a b c show ?thesis by simp
qed

lemma ripple_loop_touched:
  assumes new0: "take (length old) new0 = old" "length old \<le> length new0"
    and run: "foldE (ripple_update rows cols) (rev [0..int (length new0) - 1]) (new0, old, ng)
                = Inr (rs, old', ng')"
  shows "old' = map grown old"
proof -
  let ?P = "\<lambda>k s. case s of (rs, old', ng) \<Rightarrow>
              take (nat k) rs = take (nat k) new0 \<and> nat k \<le> length rs
              \<and> old' = take (nat k) old @ map grown (drop (nat k) old)"
  have "?P 0 (rs, old', ng')"
  proof (rule foldE_rev_upto_result [where P = ?P, OF _ _ _ run])
    show "0 \<le> int (length new0) - 1 + 1" by simp
    show "?P (int (length new0) - 1 + 1) (new0, old, ng)" using new0(2) by simp
  next
    fix k s s'
    assume k: "0 \<le> k" "k \<le> int (length new0) - 1" and p: "?P (k + 1) s"
      and st: "ripple_update rows cols k s = Inr s'"
    obtain rs0 old0 ng0 where s: "s = (rs0, old0, ng0)" by (cases s)
    obtain rs1 old1 ng1 where s': "s' = (rs1, old1, ng1)" by (cases s')
    from p s have inv: "take (nat (k + 1)) rs0 = take (nat (k + 1)) new0"
      "nat (k + 1) \<le> length rs0"
      "old0 = take (nat (k + 1)) old @ map grown (drop (nat (k + 1)) old)"
      by simp_all
    from ripple_update_touched [OF k new0 inv st [unfolded s s']]
    show "?P k s'" unfolding s' by simp
  qed
  then show ?thesis by simp
qed

text \<open>
  The state \<^verbatim>\<open>rippleStep\<close> leaves behind: every emitter of \<^verbatim>\<open>state.ripples\<close> has grown by
  \<open>1/2\<close>, whatever the step returns.
\<close>

lemma rippleStep_touched:
  assumes "rippleStep rows cols g st rnd = Inr (res, touched)"
  shows "touched = st\<lparr>ripples := map_option (map grown) (ripples st)\<rparr>"
proof -
  let ?old = "case ripples st of None \<Rightarrow> [] | Some rs \<Rightarrow> rs"
  let ?new = "if rnd 0 < 5 / 100
            then ?old @ [\<lparr>centerRow = \<lfloor>rnd 1 * real_of_int rows\<rfloor>,
                         centerCol = \<lfloor>rnd 2 * real_of_int cols\<rfloor>,
                         radius = 0, maxRadius = rnd 3 * 15 + 5\<rparr>]
            else ?old"
  from assms obtain empty rs old' ng
    where run: "foldE (ripple_update rows cols) (rev [0..int (length ?new) - 1]) (?new, ?old, empty)
                  = Inr (rs, old', ng)"
      and t: "touched = st\<lparr>ripples := (case ripples st of None \<Rightarrow> None | Some _ \<Rightarrow> Some old')\<rparr>"
    by (auto simp: rippleStep_def Let_def ebind_def split: sum.splits prod.splits)
  have "old' = map grown ?old"
    by (rule ripple_loop_touched [OF _ _ run]) simp_all
  with t show ?thesis by (cases "ripples st") simp_all
qed

lemma executePattern_ripple_touched:
  assumes "executePattern rows cols g Ripple st rnd = Inr (res, touched)"
  shows "touched = st\<lparr>ripples := map_option (map grown) (ripples st)\<rparr>"
  using assms rippleStep_touched by (simp add: executePattern_def)

subsection \<open>The dispatch\<close>

lemma gameOfLifeStep_sound:
  assumes "is_grid rows cols g"
  shows "\<exists>res. gameOfLifeStep rows cols g = Inr res \<and> sound rows cols (newGrid res)"
proof -
  from gameOfLifeStep_result [OF assms] obtain ng ch
    where res: "gameOfLifeStep rows cols g
                  = Inr \<lparr>newGrid = ng, hasChanged = ch, nextPatternState = None\<rparr>"
      and ng: "is_grid rows cols ng"
      and cells: "\<forall>i j. 0 \<le> i \<and> i < rows \<and> 0 \<le> j \<and> j < cols
                    \<longrightarrow> cell_at ng i j = gol_value rows cols g i j"
    by blast
  have "binary ng"
    by (rule binaryI [OF ng]) (use cells gol_value_binary in auto)
  with res ng show ?thesis by (simp add: sound_def)
qed

lemma executePattern_sound:
  assumes g: "is_grid rows cols g" and rows: "0 < rows" and cols: "0 < cols"
    and b: "pattern = Rain \<or> pattern = Rule30 \<or> pattern = Image \<Longrightarrow> binary g"
  shows "\<exists>res touched. executePattern rows cols g pattern st rnd = Inr (res, touched)
           \<and> sound rows cols (newGrid res)"
proof (cases pattern)
  case GameOfLife
  then show ?thesis using gameOfLifeStep_sound [OF g] by (auto simp: executePattern_def)
next
  case Ripple
  from rippleStep_sound [OF g, of st rnd] obtain both
    where "rippleStep rows cols g st rnd = Inr both" "sound rows cols (newGrid (fst both))"
    by blast
  with Ripple show ?thesis by (cases both) (simp add: executePattern_def)
next
  case Wave
  then show ?thesis using waveStep_sound [OF g, of st] by (auto simp: executePattern_def)
next
  case Rain
  then have "sound rows cols g" using g b by (simp add: sound_def)
  from rainStep_sound [OF this rows, of rnd] Rain show ?thesis by (auto simp: executePattern_def)
next
  case Spiral
  then show ?thesis using spiralStep_sound [OF g, of st] by (auto simp: executePattern_def)
next
  case Noise
  then show ?thesis using noiseStep_sound [OF g, of rnd] by (auto simp: executePattern_def)
next
  case Rule30
  then have "sound rows cols g" using g b by (simp add: sound_def)
  from rule30Step_sound [OF this rows cols] Rule30 show ?thesis by (auto simp: executePattern_def)
next
  case Image
  then show ?thesis using g b by (simp add: executePattern_def sound_def)
qed

lemma noise_1x1:
  "executePattern 1 1 g Noise st (\<lambda>_. 0)
     = Inr (\<lparr>newGrid = [[0]], hasChanged = True, nextPatternState = None\<rparr>, st)"
  by (simp add: executePattern_def noiseStep_def createEmptyGrid_def new_zero_array_def
      max_array_length_def set_cell_def upto_rec1)


text \<open>
  C3 as stated fails on grids with a cell other than 0 and 1: Rain and Rule 30 start from
  a copy of the input and move its values. Rain on \<open>[[5]]\<close> with no new drop and no
  clearing returns \<open>[[5]]\<close>; Rule 30 on a \<open>2 \<times> 2\<close> grid shifts the 7 of the first row to the
  right.
\<close>

theorem executePattern_binary_counterexample:
  "executePattern 1 1 [[5]] Rain empty_state (\<lambda>_. 1 / 2)
     = Inr (\<lparr>newGrid = [[5]], hasChanged = True, nextPatternState = None\<rparr>, empty_state)
   \<and> executePattern 2 2 [[7, 0], [0, 0]] Rule30 empty_state (\<lambda>_. 0)
     = Inr (\<lparr>newGrid = [[0, 7], [0, 0]], hasChanged = True, nextPatternState = None\<rparr>,
            empty_state)"
  by (simp add: executePattern_def rainStep_def rule30Step_def cell_def set_cell_def upto_rec1)

text \<open>
  C3, amended: for every pattern other than Game of Life, one step on a \<open>rows \<times> cols\<close> grid
  returns a grid of the same dimensions in which every cell is 0 or 1; for Ripple, Wave,
  Spiral and Noise on every grid of integers, for Rain and Rule 30 on every grid whose
  cells are 0 or 1.
\<close>

theorem executePattern_binary:
  assumes "is_grid rows cols g" and "0 < rows" and "0 < cols"
    and "pattern \<in> {Ripple, Wave, Rain, Spiral, Noise, Rule30}"
    and "pattern = Rain \<or> pattern = Rule30 \<longrightarrow> binary g"
  shows "\<exists>res touched. executePattern rows cols g pattern st rnd = Inr (res, touched)
           \<and> is_grid rows cols (newGrid res) \<and> binary (newGrid res)"
proof -
  have "pattern = Rain \<or> pattern = Rule30 \<or> pattern = Image \<Longrightarrow> binary g"
    using assms(4,5) by auto
  from executePattern_sound [OF assms(1-3) this] show ?thesis
    by (simp add: sound_def)
qed

theorem executePattern_binary_witness:
  "is_grid 1 1 [[5]] \<and> Noise \<in> {Ripple, Wave, Rain, Spiral, Noise, Rule30}
   \<and> (\<exists>res touched. executePattern 1 1 [[5]] Noise empty_state (\<lambda>_. 0) = Inr (res, touched)
          \<and> newGrid res = [[0]] \<and> is_grid 1 1 (newGrid res) \<and> binary (newGrid res))
   \<and> is_grid 3 5 seed_3x5 \<and> Rule30 \<in> {Ripple, Wave, Rain, Spiral, Noise, Rule30}
   \<and> binary seed_3x5
   \<and> (\<exists>res touched. executePattern 3 5 seed_3x5 Rule30 empty_state (\<lambda>_. 0) = Inr (res, touched)
          \<and> is_grid 3 5 (newGrid res) \<and> binary (newGrid res))"
proof -
  have g1: "is_grid 1 1 [[5]]" by (simp add: is_grid_def max_array_length_def)
  have n: "executePattern 1 1 [[5]] Noise empty_state (\<lambda>_. 0)
             = Inr (\<lparr>newGrid = [[0]], hasChanged = True, nextPatternState = None\<rparr>, empty_state)"
    by (rule noise_1x1)
  have g2: "is_grid 3 5 seed_3x5" by (simp add: is_grid_def seed_3x5_def max_array_length_def)
  have b2: "binary seed_3x5" by (simp add: binary_def seed_3x5_def)
  show ?thesis
    using g1 g2 b2 n
      executePattern_binary [OF g1, of Noise empty_state "\<lambda>_. 0"]
      executePattern_binary [OF g2, of Rule30 empty_state "\<lambda>_. 0"]
    by simp
qed

subsection \<open>The engine\<close>

lemma engine_1x1_constructed: "useAnimationPatterns cfg_1x1 = Inr engine_1x1"
  by (simp add: useAnimationPatterns_def cfg_1x1_def engine_1x1_def createEmptyGrid_def
      new_zero_array_def max_array_length_def)

text \<open>
  C1 as stated fails where a baseline exists when \<^verbatim>\<open>startAnimation\<close> is called: the guard
  \<^verbatim>\<open>prev.baselineGrid || \<dots>\<close> keeps the old baseline. In the first run the engine is
  started, the pattern is changed to Rule 30 (the live grid becomes \<open>[[1]]\<close>) and
  \<^verbatim>\<open>startAnimation\<close> is called again. In the second the engine is started and stopped, the
  pattern is changed to Rule 30 and the engine is started again from the stopped state;
  the baseline of the first start is still there, since \<^verbatim>\<open>stopAnimation\<close> does not clear
  it. Both times \<^verbatim>\<open>stopAnimation\<close> then restores \<open>[[0]]\<close>, not the grid \<open>[[1]]\<close> that existed
  immediately before the call of \<^verbatim>\<open>startAnimation\<close>.
\<close>

theorem start_stop_counterexample:
  "useAnimationPatterns cfg_1x1 = Inr engine_1x1
   \<and> run cfg_1x1 [Start Noise 1, ChangePattern Rule30 (\<lambda>_. 0), Rerender] engine_1x1
       = Inr engine_switched
   \<and> grid engine_switched = [[1]]
   \<and> grid (stopAnimation (startAnimation Rule30 4 engine_switched)) = [[0]]
   \<and> run cfg_1x1 [Start Noise 1, Stop, ChangePattern Rule30 (\<lambda>_. 0), Rerender] engine_1x1
       = Inr engine_restarted
   \<and> grid engine_restarted = [[1]]
   \<and> grid (stopAnimation (startAnimation Rule30 4 engine_restarted)) = [[0]]"
  by (simp add: useAnimationPatterns_def run_def startAnimation_def changePattern_def rerender_def
      stopAnimation_def engine_1x1_def engine_switched_def engine_restarted_def cfg_1x1_def
      createEmptyGrid_def new_zero_array_def max_array_length_def set_cell_def)

lemma animate_baseline:
  "animate cfg rnd e = Inr e' \<Longrightarrow> baselineGrid (animationState e') = baselineGrid (animationState e)"
  by (auto simp: animate_def Let_def ebind_def split: sum.splits if_splits)

lemma changePattern_baseline:
  "changePattern cfg p rnd e = Inr e' \<Longrightarrow> baselineGrid (animationState e') = baselineGrid (animationState e)"
  by (auto simp: changePattern_def Let_def ebind_def split: sum.splits if_splits)

lemma perform_baseline:
  "keeps_running x \<Longrightarrow> perform cfg x e = Inr e' \<Longrightarrow>
   baselineGrid (animationState e') = baselineGrid (animationState e)"
  by (cases x) (auto simp: animate_baseline changePattern_baseline rerender_def)

lemma run_baseline:
  "\<forall>x\<in>set ops. keeps_running x \<Longrightarrow> run cfg ops e = Inr e' \<Longrightarrow>
   baselineGrid (animationState e') = baselineGrid (animationState e)"
  unfolding run_def
proof (induction ops arbitrary: e)
  case Nil
  then show ?case by simp
next
  case (Cons x ops)
  from Cons.prems(2) obtain e1 where e1: "perform cfg x e = Inr e1" "foldE (perform cfg) ops e1 = Inr e'"
    by (auto split: sum.splits)
  have "baselineGrid (animationState e1) = baselineGrid (animationState e)"
    using perform_baseline [OF _ e1(1)] Cons.prems(1) by simp
  moreover have "baselineGrid (animationState e') = baselineGrid (animationState e1)"
    using Cons.IH [OF _ e1(2)] Cons.prems(1) by simp
  ultimately show ?case by simp
qed

text \<open>
  C1, amended: if no baseline exists when \<^verbatim>\<open>startAnimation\<close> is called and the callback
  reads the current live grid \<open>G\<close>, then after any number of frames, \<^verbatim>\<open>changePattern\<close>
  calls and renders, \<^verbatim>\<open>stopAnimation\<close> leaves the live grid equal to \<open>G\<close>.
\<close>

theorem start_stop_restores:
  assumes "baselineGrid (animationState e) = None" and "startGrid e = grid e"
    and "list_all keeps_running ops"
    and "run cfg ops (startAnimation pattern letterIndex e) = Inr e'"
  shows "grid (stopAnimation e') = grid e"
proof -
  have "\<forall>x\<in>set ops. keeps_running x"
    using assms(3) by (simp add: list_all_iff)
  from run_baseline [OF this assms(4)]
  have "baselineGrid (animationState e') = Some (grid e)"
    using assms(1,2) by (simp add: startAnimation_def)
  then show ?thesis by (simp add: stopAnimation_def)
qed

theorem start_stop_restores_witness:
  "baselineGrid (animationState engine_1x1) = None \<and> startGrid engine_1x1 = grid engine_1x1
   \<and> list_all keeps_running [Frame (\<lambda>_. 1), ChangePattern Rule30 (\<lambda>_. 0), Frame (\<lambda>_. 0)]
   \<and> (\<exists>e'. run cfg_1x1 [Frame (\<lambda>_. 1), ChangePattern Rule30 (\<lambda>_. 0), Frame (\<lambda>_. 0)]
             (startAnimation Noise 1 engine_1x1) = Inr e'
          \<and> grid e' = [[1]]
          \<and> grid (stopAnimation e') = grid engine_1x1)"
proof -
  let ?ops = "[Frame (\<lambda>_. 1), ChangePattern Rule30 (\<lambda>_. 0), Frame (\<lambda>_. 0)]"
  have b: "baselineGrid (animationState engine_1x1) = None" and s: "startGrid engine_1x1 = grid engine_1x1"
    by (simp_all add: engine_1x1_def)
  have k: "list_all keeps_running ?ops" by simp
  obtain e' where r: "run cfg_1x1 ?ops (startAnimation Noise 1 engine_1x1) = Inr e'" and g: "grid e' = [[1]]"
    by (simp add: run_def startAnimation_def changePattern_def animate_def executePattern_def
        noiseStep_def rule30Step_def cell_def upto_rec1
      stopAnimation_def engine_1x1_def cfg_1x1_def createEmptyGrid_def
      new_zero_array_def max_array_length_def set_cell_def)
  show ?thesis
    using b s k r g start_stop_restores [OF b s k r] by simp
qed

text \<open>
  C2 as stated fails: \<^verbatim>\<open>stopAnimation\<close> does not clear \<^verbatim>\<open>baselineGrid\<close>. After a start and
  one frame the baseline is \<open>[[0]]\<close>, and it still is after \<^verbatim>\<open>stopAnimation\<close>.
\<close>

theorem stop_clears_baseline_counterexample:
  "run cfg_1x1 [Start Noise 1, Frame (\<lambda>_. 1)] engine_1x1 = Inr engine_paused
   \<and> baselineGrid (animationState engine_paused) = Some [[0]]
   \<and> baselineGrid (animationState (stopAnimation engine_paused)) = Some [[0]]"
  by (simp add: run_def startAnimation_def animate_def executePattern_def noiseStep_def
      stopAnimation_def engine_1x1_def engine_paused_def cfg_1x1_def createEmptyGrid_def
      new_zero_array_def max_array_length_def set_cell_def upto_rec1)

text \<open>
  C2, amended: \<^verbatim>\<open>stopAnimation\<close> sets the live grid to a copy of \<^verbatim>\<open>baselineGrid\<close> when there
  is one and leaves it unchanged when there is none; it leaves \<^verbatim>\<open>baselineGrid\<close> as it is,
  and sets \<^verbatim>\<open>isRunning\<close> to false and \<^verbatim>\<open>activeLetterIndex\<close> to none.
\<close>

theorem stopAnimation_effect:
  "(\<forall>b. baselineGrid (animationState e) = Some b \<longrightarrow> grid (stopAnimation e) = b)
   \<and> (baselineGrid (animationState e) = None \<longrightarrow> grid (stopAnimation e) = grid e)
   \<and> baselineGrid (animationState (stopAnimation e)) = baselineGrid (animationState e)
   \<and> \<not> isRunning (animationState (stopAnimation e))
   \<and> activeLetterIndex (animationState (stopAnimation e)) = None"
  by (simp add: stopAnimation_def)

theorem stopAnimation_effect_witness:
  "run cfg_1x1 [Start Noise 1, ChangePattern Rule30 (\<lambda>_. 0), Rerender] engine_1x1
     = Inr engine_switched
   \<and> baselineGrid (animationState engine_switched) = Some [[0]]
   \<and> grid engine_switched = [[1]]
   \<and> grid (stopAnimation engine_switched) = [[0]]
   \<and> baselineGrid (animationState engine_1x1) = None
   \<and> grid (stopAnimation engine_1x1) = grid engine_1x1
   \<and> \<not> isRunning (animationState (stopAnimation engine_switched))
   \<and> activeLetterIndex (animationState (stopAnimation engine_switched)) = None"
proof -
  have r: "run cfg_1x1 [Start Noise 1, ChangePattern Rule30 (\<lambda>_. 0), Rerender] engine_1x1
             = Inr engine_switched"
    by (simp add: run_def startAnimation_def changePattern_def rerender_def engine_1x1_def
        engine_switched_def cfg_1x1_def createEmptyGrid_def new_zero_array_def
        max_array_length_def set_cell_def copy_grid_def Let_def)
  have p: "baselineGrid (animationState engine_switched) = Some [[0]]"
    "grid engine_switched = [[1]]"
    by (simp_all add: engine_switched_def)
  have n: "baselineGrid (animationState engine_1x1) = None"
    by (simp add: engine_1x1_def)
  show ?thesis
    using r p n stopAnimation_effect [of engine_switched] stopAnimation_effect [of engine_1x1]
    by simp
qed

lemma animate_not_running: "\<not> isRunning (animationState e) \<Longrightarrow> animate cfg rnd e = Inr e"
  by (simp add: animate_def)

lemma animate_error:
  assumes "isRunning (animationState e)"
    and "executePattern (cfg_rows cfg) (cfg_cols cfg) (grid e) (currentPattern (animationState e))
           (patternState (animationState e)) rnd = Inl err"
  shows "animate cfg rnd e = Inl err"
  using assms by (simp add: animate_def Let_def)

lemma animate_stop:
  assumes "isRunning (animationState e)"
    and "executePattern (cfg_rows cfg) (cfg_cols cfg) (grid e) (currentPattern (animationState e))
           (patternState (animationState e)) rnd = Inr (res, touched)"
    and "(currentPattern (animationState e) = GameOfLife \<and> \<not> hasChanged res)
         \<or> generation (animationState e) \<ge> cfg_maxGenerations cfg"
  shows "animate cfg rnd e =
           Inr (e\<lparr>animationState := (animationState e)\<lparr>isRunning := False,
                                                        patternState := touched\<rparr>,
                  notifications := notifications e @ [Stopped]\<rparr>)"
  using assms by (auto simp: animate_def Let_def)

lemma animate_commit:
  assumes "isRunning (animationState e)"
    and "executePattern (cfg_rows cfg) (cfg_cols cfg) (grid e) (currentPattern (animationState e))
           (patternState (animationState e)) rnd = Inr (res, touched)"
    and "\<not> (currentPattern (animationState e) = GameOfLife \<and> \<not> hasChanged res)"
    and "generation (animationState e) < cfg_maxGenerations cfg"
  shows "animate cfg rnd e =
           Inr (e\<lparr>animationState := (animationState e)\<lparr>
                    generation := generation (animationState e) + 1,
                    patternState := (case nextPatternState res of
                                       Some p \<Rightarrow> p | None \<Rightarrow> touched)\<rparr>\<rparr>)"
  using assms by (auto simp: animate_def Let_def)

lemma animate_generation:
  assumes "animate cfg rnd e = Inr e'"
  shows "generation (animationState e') =
           (if isRunning (animationState e') then generation (animationState e) + 1
            else generation (animationState e))"
proof (cases "isRunning (animationState e)")
  case False
  then show ?thesis using assms by (simp add: animate_not_running)
next
  case True
  show ?thesis
  proof (cases "executePattern (cfg_rows cfg) (cfg_cols cfg) (grid e)
                  (currentPattern (animationState e)) (patternState (animationState e)) rnd")
    case (Inl err)
    then show ?thesis using assms animate_error [OF True Inl] by simp
  next
    case (Inr both)
    then obtain res touched where Inr: "executePattern (cfg_rows cfg) (cfg_cols cfg) (grid e)
                  (currentPattern (animationState e)) (patternState (animationState e)) rnd
                    = Inr (res, touched)"
      by (cases both) simp
    show ?thesis
    proof (cases "(currentPattern (animationState e) = GameOfLife \<and> \<not> hasChanged res)
                   \<or> generation (animationState e) \<ge> cfg_maxGenerations cfg")
      case stop: True
      then show ?thesis using assms animate_stop [OF True Inr stop] by auto
    next
      case False
      then have "animate cfg rnd e =
           Inr (e\<lparr>animationState := (animationState e)\<lparr>
                    generation := generation (animationState e) + 1,
                    patternState := (case nextPatternState res of
                                       Some p \<Rightarrow> p | None \<Rightarrow> touched)\<rparr>\<rparr>)"
        by (intro animate_commit [OF True Inr]) auto
      then show ?thesis using assms True by auto
    qed
  qed
qed

lemma changePattern_generation:
  "changePattern cfg pattern rnd e = Inr e' \<Longrightarrow> generation (animationState e') = 0"
  by (auto simp: changePattern_def Let_def ebind_def split: sum.splits if_splits)

lemma resetGrid_generation: "resetGrid cfg e = Inr e' \<Longrightarrow> generation (animationState e') = 0"
  by (auto simp: resetGrid_def ebind_def split: sum.splits)

lemma randomizeGrid_generation:
  "randomizeGrid cfg rnd e = Inr e' \<Longrightarrow> generation (animationState e') = 0"
  by (auto simp: randomizeGrid_def ebind_def split: sum.splits)








lemma executePattern_touched:
  assumes "pattern \<noteq> Ripple" and "executePattern rows cols g pattern st rnd = Inr (res, touched)"
  shows "touched = st"
  using assms by (cases pattern) (auto simp: executePattern_def ebind_def split: sum.splits)

text \<open>
  What a frame that stops the engine by itself leaves in place: the grid (it is not
  restored to the baseline) and every field of the state but \<^verbatim>\<open>isRunning\<close>; for every
  pattern other than Ripple this includes the content of \<^verbatim>\<open>patternState\<close>.
\<close>

lemma auto_stop_frame:
  assumes "isRunning (animationState e)"
    and "executePattern (cfg_rows cfg) (cfg_cols cfg) (grid e) (currentPattern (animationState e))
           (patternState (animationState e)) rnd = Inr (res, touched)"
    and "(currentPattern (animationState e) = GameOfLife \<and> \<not> hasChanged res)
         \<or> cfg_maxGenerations cfg \<le> generation (animationState e)"
  shows "\<exists>e'. animate cfg rnd e = Inr e'
           \<and> animationState e' = (animationState e)\<lparr>isRunning := False, patternState := touched\<rparr>
           \<and> grid e' = grid e
           \<and> baselineGrid (animationState e') = baselineGrid (animationState e)
           \<and> activeLetterIndex (animationState e') = activeLetterIndex (animationState e)
           \<and> currentPattern (animationState e') = currentPattern (animationState e)
           \<and> generation (animationState e') = generation (animationState e)
           \<and> (currentPattern (animationState e) \<noteq> Ripple
                \<longrightarrow> patternState (animationState e') = patternState (animationState e))
           \<and> notifications e' = notifications e @ [Stopped]"
  using animate_stop [OF assms] executePattern_touched [OF _ assms(2)] by simp

text \<open>
  C10 fails on the code for the Ripple pattern. With \<^verbatim>\<open>maxGenerations = 1\<close>, a start of
  Ripple and one frame that spawns an emitter lead to generation 1 and one emitter of
  radius \<open>1/2\<close>. The next frame runs \<^verbatim>\<open>rippleStep\<close>, which adds \<open>1/2\<close> to the radius of the
  emitter object shared with \<^verbatim>\<open>prevState.patternState\<close>, and then stops at the generation
  limit with \<^verbatim>\<open>{...prevState, isRunning: false}\<close>: the emitter of \<^verbatim>\<open>patternState\<close> has radius
  1 afterwards, although the step was not committed.
\<close>

theorem auto_stop_touches_emitters:
  "run cfg_short [Start Ripple 6, Frame (\<lambda>_. 0)] engine_1x1 = Inr engine_rippling
   \<and> isRunning (animationState engine_rippling)
   \<and> cfg_maxGenerations cfg_short \<le> generation (animationState engine_rippling)
   \<and> patternState (animationState engine_rippling)
       = \<lparr>ripples = Some [\<lparr>centerRow = 0, centerCol = 0, radius = 1 / 2, maxRadius = 5\<rparr>],
          time = None\<rparr>
   \<and> animate cfg_short (\<lambda>_. 1) engine_rippling
       = Inr (engine_rippling\<lparr>
           animationState := (animationState engine_rippling)\<lparr>
             isRunning := False,
             patternState :=
               \<lparr>ripples = Some [\<lparr>centerRow = 0, centerCol = 0, radius = 1, maxRadius = 5\<rparr>],
                time = None\<rparr>\<rparr>,
           notifications := [Started Ripple, Stopped]\<rparr>)"
  by (simp add: run_def startAnimation_def animate_def executePattern_def rippleStep_def
      ripple_update_def draw_ripple_def engine_1x1_def engine_rippling_def cfg_short_def
      createEmptyGrid_def new_zero_array_def max_array_length_def set_cell_def upto_rec1
      empty_state_def Let_def)

text \<open>
  C6: a frame that commits a step (the engine is running, and still running after the
  frame) adds exactly 1 to the generation, a frame that does not leaves it unchanged;
  \<^verbatim>\<open>startAnimation\<close>, \<^verbatim>\<open>changePattern\<close>, \<^verbatim>\<open>resetGrid\<close> and \<^verbatim>\<open>randomizeGrid\<close> set it to 0.
\<close>

theorem generation_counts:
  "(\<forall>e'. animate cfg rnd e = Inr e' \<longrightarrow>
      generation (animationState e') =
        (if isRunning (animationState e') then generation (animationState e) + 1
         else generation (animationState e)))
   \<and> generation (animationState (startAnimation pattern letterIndex e)) = 0
   \<and> (\<forall>e'. changePattern cfg pattern rnd e = Inr e' \<longrightarrow> generation (animationState e') = 0)
   \<and> (\<forall>e'. resetGrid cfg e = Inr e' \<longrightarrow> generation (animationState e') = 0)
   \<and> (\<forall>e'. randomizeGrid cfg rnd e = Inr e' \<longrightarrow> generation (animationState e') = 0)"
  using animate_generation changePattern_generation resetGrid_generation randomizeGrid_generation
  by (simp add: startAnimation_def)

theorem generation_counts_witness:
  "(\<exists>e'. animate cfg_1x1 (\<lambda>_. 0) engine_paused = Inr e' \<and> isRunning (animationState e')
        \<and> generation (animationState engine_paused) = 1 \<and> generation (animationState e') = 2)
   \<and> (\<exists>e'. changePattern cfg_1x1 Wave (\<lambda>_. 0) engine_paused = Inr e'
        \<and> generation (animationState e') = 0)
   \<and> (\<exists>e'. resetGrid cfg_1x1 engine_paused = Inr e' \<and> generation (animationState e') = 0)
   \<and> (\<exists>e'. randomizeGrid cfg_1x1 (\<lambda>_. 0) engine_paused = Inr e'
        \<and> generation (animationState e') = 0)"
proof -
  obtain e1 where e1: "animate cfg_1x1 (\<lambda>_. 0) engine_paused = Inr e1" "isRunning (animationState e1)"
    by (simp add: animate_def engine_paused_def cfg_1x1_def noise_1x1)
  obtain e2 where e2: "changePattern cfg_1x1 Wave (\<lambda>_. 0) engine_paused = Inr e2"
    by (simp add: changePattern_def cfg_1x1_def createEmptyGrid_def new_zero_array_def
        max_array_length_def)
  obtain e3 where e3: "resetGrid cfg_1x1 engine_paused = Inr e3"
    by (simp add: resetGrid_def cfg_1x1_def createEmptyGrid_def new_zero_array_def
        max_array_length_def)
  obtain e4 where e4: "randomizeGrid cfg_1x1 (\<lambda>_. 0) engine_paused = Inr e4"
    by (simp add: randomizeGrid_def cfg_1x1_def createRandomGrid_def new_zero_array_def
        max_array_length_def)
  have g: "generation (animationState engine_paused) = 1" by (simp add: engine_paused_def)
  show ?thesis
    using generation_counts [of cfg_1x1 "\<lambda>_. 0" engine_paused Wave] e1 e2 e3 e4 g by simp
qed

subsection \<open>The construction and the totality of the operations\<close>

lemma mapE_Inr:
  assumes "\<And>x. x \<in> set xs \<Longrightarrow> f x = Inr (h x)"
  shows "mapE f xs = Inr (map h xs)"
  using assms by (induction xs) simp_all

lemma createRandomGrid_ok:
  assumes "0 \<le> rows" "rows \<le> max_array_length" "0 \<le> cols" "cols \<le> max_array_length"
  shows "createRandomGrid rows cols rnd =
           Inr (map (\<lambda>r. map (\<lambda>c. if rnd (r * nat cols + c) > 7 / 10 then 1 else 0) [0..<nat cols])
                  [0..<nat rows])"
proof -
  have "mapE (\<lambda>r. ebind (new_zero_array cols) (\<lambda>inner.
                Inr (map (\<lambda>c. if rnd (r * length inner + c) > 7 / 10 then 1 else 0)
                       [0..<length inner])))
            [0..<nat rows]
        = Inr (map (\<lambda>r. map (\<lambda>c. if rnd (r * nat cols + c) > 7 / 10 then 1 else 0) [0..<nat cols])
                  [0..<nat rows])"
    by (rule mapE_Inr) (use assms in \<open>simp add: new_zero_array_def\<close>)
  then show ?thesis
    using assms by (simp add: createRandomGrid_def new_zero_array_def)
qed

lemma createRandomGrid_sound:
  assumes "0 \<le> rows" "rows \<le> max_array_length" "0 \<le> cols" "cols \<le> max_array_length"
  shows "\<exists>g. createRandomGrid rows cols rnd = Inr g \<and> sound rows cols g"
  unfolding createRandomGrid_ok [OF assms]
  using assms by (simp add: sound_def is_grid_def binary_def list_all_length)

lemma createEmptyGrid_sound':
  assumes "0 \<le> rows" "rows \<le> max_array_length" "0 \<le> cols" "cols \<le> max_array_length"
  shows "\<exists>g. createEmptyGrid rows cols = Inr g \<and> sound rows cols g"
  using assms by (simp add: createEmptyGrid_ok sound_empty)

lemma useAnimationPatterns_fails:
  "(\<exists>err. useAnimationPatterns cfg = Inl err) \<longleftrightarrow>
     cfg_rows cfg < 0 \<or> max_array_length < cfg_rows cfg
     \<or> (0 < cfg_rows cfg \<and> (cfg_cols cfg < 0 \<or> max_array_length < cfg_cols cfg))"
proof -
  have rep: "mapE (\<lambda>_. Inl RangeError :: js_error + int list) (replicate n x)
               = (if n = 0 then Inr [] else Inl RangeError)" for n and x :: int
    by (cases n) simp_all
  show ?thesis
    by (auto simp: useAnimationPatterns_def createEmptyGrid_def new_zero_array_def mapE_const rep
        ebind_def split: sum.splits)
qed

lemma useAnimationPatterns_error:
  "useAnimationPatterns cfg = Inl err \<Longrightarrow> err = RangeError"
proof -
  have rep: "mapE (\<lambda>_. Inl RangeError :: js_error + int list) xs = Inl err \<Longrightarrow> err = RangeError"
    for xs :: "int list"
    by (cases xs) simp_all
  show "useAnimationPatterns cfg = Inl err \<Longrightarrow> err = RangeError"
    by (auto simp: useAnimationPatterns_def createEmptyGrid_def new_zero_array_def mapE_const
        ebind_def split: sum.splits if_splits dest: rep)
qed

lemma useAnimationPatterns_ok:
  assumes "0 \<le> cfg_rows cfg" "cfg_rows cfg \<le> max_array_length"
    "0 \<le> cfg_cols cfg" "cfg_cols cfg \<le> max_array_length"
  shows "\<exists>e0. useAnimationPatterns cfg = Inr e0 \<and> engine_ok cfg e0"
  using assms by (simp add: useAnimationPatterns_def createEmptyGrid_ok engine_ok_def sound_empty)

lemma animate_ok:
  assumes d: "0 < cfg_rows cfg" "0 < cfg_cols cfg" and ok: "engine_ok cfg e"
  shows "\<exists>e'. animate cfg rnd e = Inr e' \<and> engine_ok cfg e'"
proof (cases "isRunning (animationState e)")
  case False
  then show ?thesis using ok by (simp add: animate_not_running)
next
  case True
  have g: "is_grid (cfg_rows cfg) (cfg_cols cfg) (grid e)" "binary (grid e)"
    using ok by (simp_all add: engine_ok_def sound_def)
  from executePattern_sound [OF g(1) d g(2)] obtain res touched
    where res: "executePattern (cfg_rows cfg) (cfg_cols cfg) (grid e)
                  (currentPattern (animationState e)) (patternState (animationState e)) rnd = Inr (res, touched)"
      and s: "sound (cfg_rows cfg) (cfg_cols cfg) (newGrid res)"
    by blast
  show ?thesis
  proof (cases "(currentPattern (animationState e) = GameOfLife \<and> \<not> hasChanged res)
                \<or> cfg_maxGenerations cfg \<le> generation (animationState e)")
    case stop: True
    show ?thesis
      unfolding animate_stop [OF True res stop] using ok by (simp add: engine_ok_def)
  next
    case False
    then have "animate cfg rnd e =
           Inr (e\<lparr>animationState := (animationState e)\<lparr>
                    generation := generation (animationState e) + 1,
                    patternState := (case nextPatternState res of
                                       Some p \<Rightarrow> p | None \<Rightarrow> touched)\<rparr>\<rparr>)"
      by (intro animate_commit [OF True res]) auto
    then show ?thesis using ok s by (simp add: engine_ok_def)
  qed
qed

lemma changePattern_ok:
  assumes d: "0 < cfg_rows cfg" "cfg_rows cfg \<le> max_array_length"
    "0 < cfg_cols cfg" "cfg_cols cfg \<le> max_array_length"
    and ok: "engine_ok cfg e"
  shows "\<exists>e'. changePattern cfg pattern rnd e = Inr e' \<and> engine_ok cfg e'"
proof -
  have d0: "0 \<le> cfg_rows cfg" "cfg_rows cfg \<le> max_array_length"
    "0 \<le> cfg_cols cfg" "cfg_cols cfg \<le> max_array_length"
    using d by simp_all
  from createRandomGrid_sound [OF d0, of rnd] obtain gr
    where gr: "createRandomGrid (cfg_rows cfg) (cfg_cols cfg) rnd = Inr gr"
      "sound (cfg_rows cfg) (cfg_cols cfg) gr" by blast
  from createEmptyGrid_sound' [OF d0] obtain ge
    where ge: "createEmptyGrid (cfg_rows cfg) (cfg_cols cfg) = Inr ge"
      "sound (cfg_rows cfg) (cfg_cols cfg) ge" by blast
  have "cfg_rows cfg div 2 < cfg_rows cfg" "cfg_cols cfg div 2 < cfg_cols cfg"
    "0 \<le> cfg_rows cfg div 2" "0 \<le> cfg_cols cfg div 2"
    using d by simp_all
  from set_cell_sound [OF ge(2) this(3,1,4,2), of 1]
  obtain gs where gs: "set_cell ge (cfg_rows cfg div 2) (cfg_cols cfg div 2) 1 = Inr gs"
      "sound (cfg_rows cfg) (cfg_cols cfg) gs"
    by auto
  show ?thesis
    using ok gr ge gs by (simp add: changePattern_def Let_def engine_ok_def)
qed

lemma perform_ok:
  assumes d: "0 < cfg_rows cfg" "cfg_rows cfg \<le> max_array_length"
    "0 < cfg_cols cfg" "cfg_cols cfg \<le> max_array_length"
    and ok: "engine_ok cfg e"
  shows "\<exists>e'. perform cfg x e = Inr e' \<and> engine_ok cfg e'"
proof -
  have d0: "0 \<le> cfg_rows cfg" "cfg_rows cfg \<le> max_array_length"
    "0 \<le> cfg_cols cfg" "cfg_cols cfg \<le> max_array_length"
    using d by simp_all
  show ?thesis
  proof (cases x)
    case (Start pattern letterIndex)
    then show ?thesis using ok
      by (auto simp: startAnimation_def engine_ok_def split: option.splits)
  next
    case Stop
    then show ?thesis using ok
      by (auto simp: stopAnimation_def engine_ok_def split: option.splits)
  next
    case (ChangePattern pattern rnd)
    then show ?thesis using changePattern_ok [OF d ok] by simp
  next
    case Reset
    from createEmptyGrid_sound' [OF d0] obtain ge
      where "createEmptyGrid (cfg_rows cfg) (cfg_cols cfg) = Inr ge"
        "sound (cfg_rows cfg) (cfg_cols cfg) ge" by blast
    with Reset ok show ?thesis by (simp add: resetGrid_def engine_ok_def)
  next
    case (Randomize rnd)
    from createRandomGrid_sound [OF d0, of rnd] obtain gr
      where "createRandomGrid (cfg_rows cfg) (cfg_cols cfg) rnd = Inr gr"
        "sound (cfg_rows cfg) (cfg_cols cfg) gr" by blast
    with Randomize ok show ?thesis by (simp add: randomizeGrid_def engine_ok_def)
  next
    case (Frame rnd)
    then show ?thesis using animate_ok [OF d(1,3) ok] by simp
  next
    case Rerender
    then show ?thesis using ok by (simp add: rerender_def engine_ok_def)
  qed
qed

lemma run_ok:
  assumes d: "0 < cfg_rows cfg" "cfg_rows cfg \<le> max_array_length"
    "0 < cfg_cols cfg" "cfg_cols cfg \<le> max_array_length"
    and ok: "engine_ok cfg e"
  shows "\<exists>e'. run cfg ops e = Inr e' \<and> engine_ok cfg e'"
  unfolding run_def
  by (rule foldE_inv [where I = "engine_ok cfg", OF ok]) (rule perform_ok [OF d])

text \<open>
  C8 as stated fails: the hook does not validate its options. With \<open>rows = 0\<close> the engine
  is constructed, and a step of Rule 30 then raises a TypeError in the middle of the
  animation.
\<close>

theorem construction_counterexample:
  "useAnimationPatterns cfg_no_rows = Inr engine_no_rows
   \<and> run cfg_no_rows [Start Rule30 4, Frame (\<lambda>_. 0)] engine_no_rows = Inl TypeError"
  by (simp add: useAnimationPatterns_def cfg_no_rows_def engine_no_rows_def createEmptyGrid_def
      new_zero_array_def max_array_length_def run_def startAnimation_def animate_def
      executePattern_def rule30Step_def cell_def upto_rec1)

text \<open>
  C8, amended: constructing the engine fails exactly when the allocation of the initial
  grid does, with its RangeError: when \<open>rows\<close> is negative or above the largest array
  length, or \<open>rows\<close> is positive and \<open>cols\<close> is negative or above that length; \<open>rows = 0\<close>
  and \<open>cols = 0\<close> are accepted. For positive \<open>rows\<close> and \<open>cols\<close> the construction succeeds
  and no sequence of operations raises an exception.
\<close>

theorem construction:
  "((\<exists>err. useAnimationPatterns cfg = Inl err) \<longleftrightarrow>
       cfg_rows cfg < 0 \<or> max_array_length < cfg_rows cfg
       \<or> (0 < cfg_rows cfg \<and> (cfg_cols cfg < 0 \<or> max_array_length < cfg_cols cfg)))
   \<and> (\<forall>err. useAnimationPatterns cfg = Inl err \<longrightarrow> err = RangeError)
   \<and> (0 < cfg_rows cfg \<and> cfg_rows cfg \<le> max_array_length
        \<and> 0 < cfg_cols cfg \<and> cfg_cols cfg \<le> max_array_length
      \<longrightarrow> (\<exists>e0. useAnimationPatterns cfg = Inr e0 \<and> (\<forall>ops. \<exists>e. run cfg ops e0 = Inr e)))"
proof (intro conjI allI impI)
  show "(\<exists>err. useAnimationPatterns cfg = Inl err) \<longleftrightarrow>
       cfg_rows cfg < 0 \<or> max_array_length < cfg_rows cfg
       \<or> (0 < cfg_rows cfg \<and> (cfg_cols cfg < 0 \<or> max_array_length < cfg_cols cfg))"
    by (rule useAnimationPatterns_fails)
next
  fix err assume "useAnimationPatterns cfg = Inl err"
  then show "err = RangeError" by (rule useAnimationPatterns_error)
next
  assume d: "0 < cfg_rows cfg \<and> cfg_rows cfg \<le> max_array_length
        \<and> 0 < cfg_cols cfg \<and> cfg_cols cfg \<le> max_array_length"
  then obtain e0 where e0: "useAnimationPatterns cfg = Inr e0" "engine_ok cfg e0"
    using useAnimationPatterns_ok [of cfg] by auto
  have "\<exists>e. run cfg ops e0 = Inr e" for ops
    using run_ok [of cfg e0 ops] d e0(2) by auto
  with e0(1) show "\<exists>e0. useAnimationPatterns cfg = Inr e0 \<and> (\<forall>ops. \<exists>e. run cfg ops e0 = Inr e)"
    by blast
qed

theorem construction_witness:
  "cfg_rows \<lparr>cfg_rows = - 1, cfg_cols = 5, cfg_maxGenerations = 500\<rparr> < 0
   \<and> useAnimationPatterns \<lparr>cfg_rows = - 1, cfg_cols = 5, cfg_maxGenerations = 500\<rparr> = Inl RangeError
   \<and> 0 < cfg_rows cfg_1x1 \<and> cfg_rows cfg_1x1 \<le> max_array_length
   \<and> 0 < cfg_cols cfg_1x1 \<and> cfg_cols cfg_1x1 \<le> max_array_length
   \<and> useAnimationPatterns cfg_1x1 = Inr engine_1x1
   \<and> (\<exists>e. run cfg_1x1 [Start Rule30 4, Frame (\<lambda>_. 0), Stop, Randomize (\<lambda>_. 1)] engine_1x1 = Inr e)"
proof -
  let ?bad = "\<lparr>cfg_rows = - 1, cfg_cols = 5, cfg_maxGenerations = 500\<rparr>"
  have neg: "cfg_rows ?bad < 0" by simp
  have "\<exists>err. useAnimationPatterns ?bad = Inl err"
    using construction [of ?bad] neg by blast
  then have bad: "useAnimationPatterns ?bad = Inl RangeError"
    using construction [of ?bad] by auto
  have d: "0 < cfg_rows cfg_1x1 \<and> cfg_rows cfg_1x1 \<le> max_array_length
        \<and> 0 < cfg_cols cfg_1x1 \<and> cfg_cols cfg_1x1 \<le> max_array_length"
    by (simp add: cfg_1x1_def max_array_length_def)
  have "\<exists>e. run cfg_1x1 [Start Rule30 4, Frame (\<lambda>_. 0), Stop, Randomize (\<lambda>_. 1)] engine_1x1 = Inr e"
    using construction [of cfg_1x1] d engine_1x1_constructed by auto
  with neg bad d engine_1x1_constructed show ?thesis by simp
qed

end
